theory Spec2Isabelle
  imports
    Main
    "HOL-Library.Char_ord"
    "HOL-Library.List_Lexorder"
    "HOL-Library.Sublist"
    "HOL-Library.Multiset"
begin

section \<open>The metadata build script: syntax trees, environment, state\<close>

text \<open>
  The development follows the build-metadata script of the adapters library
  (functions \<open>buildMetadata\<close>, \<open>writeMetadataToFile\<close>, \<open>addStaticImport\<close>,
  \<open>addAdapterMetadataImport\<close>, \<open>buildImportAdapterMetadataEntry\<close> and
  \<open>addAdapterMetadataEntry\<close>). The script edits the syntax tree that recast parses from
  the registry file \<open>AdapterMetadata.ts\<close>. The tree is modelled as far as the script and
  the traversal of recast look at it: import declarations with their specifiers, variable
  declarations with their declarators, and every other node with the children that the
  traversal visits, in the order of the fields of the node.
\<close>

datatype error =
    NotImplementedError
  | ProviderMissingError nat
  | OtherError string
  | TypeError
  | IncorrectlyTypedMetadataFiles
  | ParseFailure
  | ReadFailure
  | UndefinedSortKey

text \<open>
  What can be thrown. \<open>NotImplementedError\<close> and \<open>OtherError\<close> are what a method of an
  adapter rejects with, \<open>ProviderMissingError\<close> is thrown for a chain without provider,
  \<open>TypeError\<close> is the engine's error on reading a property of undefined,
  \<open>IncorrectlyTypedMetadataFiles\<close> is
  \<open>new Error('Incorrectly typed MetadataFiles new Map expression')\<close>, and \<open>ParseFailure\<close>
  and \<open>ReadFailure\<close> are what recast's \<open>parse\<close> and \<open>fs.readFile\<close> throw.
  \<open>UndefinedSortKey\<close> is not an error of the script: it marks the one place where the
  sorting rule of the specification is silent (see \<open>sortByEntryName\<close> below).
\<close>

datatype specifierKind = ImportSpecifier | ImportDefaultSpecifier | ImportNamespaceSpecifier

text \<open>A specifier with the name of its \<open>local\<close> identifier, when it has one.\<close>

datatype specifier = Specifier specifierKind "string option"

datatype pattern = IdentifierPattern string | OtherPattern string

text \<open>
  Expressions are the node kinds the script tests for or builds, and two more: a function
  or class expression with the statements it holds, and any other expression with the
  expressions it holds. A statement is an import declaration, a variable declaration, an
  expression statement, or any other statement with the statements it holds (an export
  wrapping a declaration, a block, a loop; an expression among them stands as an
  expression statement). A declarator has the pattern of its \<open>id\<close> and its initializer,
  when there is one.
\<close>

datatype expr =
    Identifier string
  | StringLiteral string
  | MemberExpression expr expr
  | CallExpression expr "expr list"
  | ObjectExpression "(expr \<times> expr) list"
  | ArrayExpression "expr list"
  | NewExpression expr "expr list"
  | FunctionExpression string "stmt list"
  | OtherExpression string "expr list"
and declarator = VariableDeclarator pattern "expr option"
and stmt =
    ImportDeclaration "specifier list" string
  | VariableDeclaration "declarator list"
  | ExpressionStatement expr
  | OtherStatement string "stmt list"

datatype json =
    JNull
  | JBool bool
  | JNumber int
  | JString string
  | JArray "json list"
  | JObject "(string \<times> json) list"

record metadataKey =
  protocolId :: string
  productId :: string
  chainId :: nat
  fileKey :: string

text \<open>
  What the script imports from files that are not part of the sources, and from
  libraries, is a parameter of the model: the case conversion \<open>pascalCase\<close>; the tables
  \<open>Protocol\<close>, \<open>Chain\<close> and \<open>ChainName\<close> (\<open>protocolKeyOf\<close> and \<open>chainKeyOf\<close> are
  \<open>Object.keys(Protocol).find(k => Protocol[k] === protocolId)\<close> and its sibling for
  \<open>Chain\<close>, which the source casts to a key of the table); the validator
  \<open>getMetadataInvalidAddresses\<close>; recast's \<open>parse\<close> (\<open>None\<close> when it throws) and
  \<open>print\<close>; \<open>JSON.stringify(metadata, null, 2)\<close>; \<open>path.resolve\<close>; and the formatter
  that \<open>writeAndLintFile\<close> runs.
\<close>

record env =
  pascalCase :: "string \<Rightarrow> string"
  protocolKeyOf :: "string \<Rightarrow> string"
  chainKeyOf :: "nat \<Rightarrow> string"
  ChainName :: "nat \<Rightarrow> string"
  getMetadataInvalidAddresses :: "json \<Rightarrow> string list"
  parse :: "string \<Rightarrow> stmt list option"
  print :: "stmt list \<Rightarrow> string"
  stringify :: "json \<Rightarrow> string"
  resolve :: "string \<Rightarrow> string"
  lint :: "string \<Rightarrow> string \<Rightarrow> string"

section \<open>The import-section edit\<close>

text \<open>Builds the import of the artifact (\<open>buildImportAdapterMetadataEntry\<close>).\<close>

definition buildImportAdapterMetadataEntry ::
  "env \<Rightarrow> string \<Rightarrow> string \<Rightarrow> string \<Rightarrow> string \<Rightarrow> nat \<Rightarrow> string \<Rightarrow> stmt" where
  "buildImportAdapterMetadataEntry E protocolKey protocolId' productId' chainKey chainId' fileKey' =
     ImportDeclaration
       [Specifier ImportDefaultSpecifier
          (Some (protocolKey @ pascalCase E productId' @ chainKey @ pascalCase E fileKey'))]
       (''../../adapters/'' @ protocolId' @ ''/products/'' @ productId' @ ''/metadata/''
          @ ChainName E chainId' @ ''.'' @ fileKey' @ ''.json'')"

definition isImportDeclaration :: "stmt \<Rightarrow> bool" where
  "isImportDeclaration s = (case s of ImportDeclaration _ _ \<Rightarrow> True | _ \<Rightarrow> False)"

text \<open>
  The predicate of the search in \<open>addAdapterMetadataImport\<close>:
  \<open>x.specifiers![0]!.local?.name === name\<close>. With no specifier, \<open>specifiers[0]\<close> is
  undefined and reading \<open>.local\<close> throws a TypeError; a specifier without \<open>local\<close>
  compares undefined with the name.
\<close>

definition importMatches :: "string \<Rightarrow> stmt \<Rightarrow> error + bool" where
  "importMatches name x =
     (case x of
        ImportDeclaration specifiers _ \<Rightarrow>
          (case specifiers of
             [] \<Rightarrow> Inl TypeError
           | Specifier _ local # _ \<Rightarrow> Inr (local = Some name))
      | _ \<Rightarrow> Inr False)"

text \<open>\<open>Array.prototype.find\<close> with a predicate that can throw.\<close>

fun findE :: "('a \<Rightarrow> error + bool) \<Rightarrow> 'a list \<Rightarrow> error + 'a option" where
  "findE p [] = Inr None"
| "findE p (x # xs) =
     (case p x of
        Inl e \<Rightarrow> Inl e
      | Inr found \<Rightarrow> if found then Inr (Some x) else findE p xs)"

definition addAdapterMetadataImport ::
  "env \<Rightarrow> string \<Rightarrow> string \<Rightarrow> string \<Rightarrow> string \<Rightarrow> nat \<Rightarrow> string \<Rightarrow> stmt list
     \<Rightarrow> error + stmt list" where
  "addAdapterMetadataImport E protocolKey protocolId' productId' chainKey chainId' fileKey' body =
     (case partition isImportDeclaration body of
        (importNodes, codeAfterImports) \<Rightarrow>
          (case findE (importMatches
                  (protocolKey @ pascalCase E productId' @ chainKey @ pascalCase E fileKey'))
                importNodes of
             Inl e \<Rightarrow> Inl e
           | Inr (Some metadataImportEntry) \<Rightarrow> Inr body
           | Inr None \<Rightarrow>
               Inr (importNodes
                    @ [buildImportAdapterMetadataEntry E protocolKey protocolId' productId'
                         chainKey chainId' fileKey']
                    @ codeAfterImports)))"

section \<open>The registry-entry edit\<close>

text \<open>
  The predicate of the search in \<open>addAdapterMetadataEntry\<close>: an array expression of
  two elements whose second element is the identifier \<open>name\<close>.
\<close>

definition entryMatches :: "string \<Rightarrow> expr \<Rightarrow> bool" where
  "entryMatches name x =
     (case x of
        ArrayExpression [_, Identifier n] \<Rightarrow> n = name
      | _ \<Rightarrow> False)"

text \<open>
  The key function given to \<open>sortEntries\<close>:
  \<open>((entry as n.ArrayExpression).elements[1] as n.Identifier).name\<close>. The casts check
  nothing: an entry without \<open>elements\<close>, or with fewer than two of them, makes the
  read throw a TypeError; a second element that is not an identifier has no \<open>name\<close>,
  and the key is undefined.
\<close>

definition entryName :: "expr \<Rightarrow> error + string" where
  "entryName entry =
     (case entry of
        ArrayExpression (_ # Identifier n # _) \<Rightarrow> Inr n
      | ArrayExpression (_ # _ # _) \<Rightarrow> Inl UndefinedSortKey
      | _ \<Rightarrow> Inl TypeError)"

fun firstError :: "(error + 'a) list \<Rightarrow> error option" where
  "firstError [] = None"
| "firstError (Inl e # rs) = Some e"
| "firstError (Inr _ # rs) = firstError rs"

text \<open>
  Modelled from the spec: \<open>sortEntries\<close> of \<open>./utils/sortEntries\<close>, which is not among
  the sources. The registry sorting rule orders the elements by their key under string
  comparison, case-sensitive and independent of the locale, and is stable for ties.
\<close>

definition sortEntries :: "'a list \<Rightarrow> ('a \<Rightarrow> string) \<Rightarrow> 'a list" where
  "sortEntries entries extractor = sort_key extractor entries"

text \<open>
  The rule orders strings. Where the key function of the source throws, the model
  throws; where it yields undefined, the rule says nothing and the model stops with
  \<open>UndefinedSortKey\<close>.
\<close>

definition sortByEntryName :: "expr list \<Rightarrow> error + expr list" where
  "sortByEntryName elements =
     (case firstError (map entryName elements) of
        Some e \<Rightarrow> Inl e
      | None \<Rightarrow> Inr (sortEntries elements (\<lambda>entry. projr (entryName entry))))"

text \<open>The pair that \<open>addAdapterMetadataEntry\<close> builds for a new artifact.\<close>

definition newMetadataEntry :: "env \<Rightarrow> string \<Rightarrow> string \<Rightarrow> string \<Rightarrow> string \<Rightarrow> expr" where
  "newMetadataEntry E protocolKey productId' chainKey fileKey' =
     ArrayExpression
       [CallExpression (Identifier ''metadataKey'')
          [ObjectExpression
             [(Identifier ''protocolId'',
                 MemberExpression (Identifier ''Protocol'') (Identifier protocolKey)),
              (Identifier ''productId'', StringLiteral productId'),
              (Identifier ''chainId'',
                 MemberExpression (Identifier ''Chain'') (Identifier chainKey)),
              (Identifier ''fileKey'', StringLiteral fileKey')]],
        Identifier (protocolKey @ pascalCase E productId' @ chainKey @ pascalCase E fileKey')]"

definition addAdapterMetadataEntry ::
  "env \<Rightarrow> string \<Rightarrow> string \<Rightarrow> string \<Rightarrow> string \<Rightarrow> declarator \<Rightarrow> error + declarator" where
  "addAdapterMetadataEntry E protocolKey productId' chainKey fileKey' metadataFilesDeclaratorNode =
     (case metadataFilesDeclaratorNode of
        VariableDeclarator ident (Some (NewExpression callee (ArrayExpression elements # args))) \<Rightarrow>
          (case find (entryMatches
                  (protocolKey @ pascalCase E productId' @ chainKey @ pascalCase E fileKey'))
                elements of
             Some metadataFileEntry \<Rightarrow> Inr metadataFilesDeclaratorNode
           | None \<Rightarrow>
               (case sortByEntryName
                       (elements @ [newMetadataEntry E protocolKey productId' chainKey fileKey']) of
                  Inl e \<Rightarrow> Inl e
                | Inr sortedElements \<Rightarrow>
                    Inr (VariableDeclarator ident
                           (Some (NewExpression callee (ArrayExpression sortedElements # args))))))
      | _ \<Rightarrow> Inl IncorrectlyTypedMetadataFiles)"

section \<open>The traversal of \<open>addStaticImport\<close>\<close>

text \<open>A map over a list that stops at the first element that throws.\<close>

fun mapE :: "('a \<Rightarrow> error + 'b) \<Rightarrow> 'a list \<Rightarrow> error + 'b list" where
  "mapE f [] = Inr []"
| "mapE f (x # xs) =
     (case f x of
        Inl e \<Rightarrow> Inl e
      | Inr y \<Rightarrow> (case mapE f xs of Inl e \<Rightarrow> Inl e | Inr ys \<Rightarrow> Inr (y # ys)))"

lemma mapE_cong [fundef_cong]:
  "xs = ys \<Longrightarrow> (\<And>x. x \<in> set ys \<Longrightarrow> f x = g x) \<Longrightarrow> mapE f xs = mapE g ys"
  by (induction ys arbitrary: xs) (auto split: sum.splits)

text \<open>
  The number of declarators in a node. The entry edit adds a pair without declarators
  to the array of an initializer and reorders the array, so it leaves this number as it
  is; the traversal, which descends into the initializer after the edit, comes to an end
  for that reason.
\<close>

fun declaratorCountE :: "expr \<Rightarrow> nat"
and declaratorCountD :: "declarator \<Rightarrow> nat"
and declaratorCountS :: "stmt \<Rightarrow> nat" where
  "declaratorCountE (Identifier n) = 0"
| "declaratorCountE (StringLiteral v) = 0"
| "declaratorCountE (MemberExpression object property) =
     declaratorCountE object + declaratorCountE property"
| "declaratorCountE (CallExpression callee arguments) =
     declaratorCountE callee + sum_list (map declaratorCountE arguments)"
| "declaratorCountE (ObjectExpression properties) =
     sum_list (map (\<lambda>(k, v). declaratorCountE k + declaratorCountE v) properties)"
| "declaratorCountE (ArrayExpression elements) = sum_list (map declaratorCountE elements)"
| "declaratorCountE (NewExpression callee arguments) =
     declaratorCountE callee + sum_list (map declaratorCountE arguments)"
| "declaratorCountE (FunctionExpression kind body) = sum_list (map declaratorCountS body)"
| "declaratorCountE (OtherExpression kind children) = sum_list (map declaratorCountE children)"
| "declaratorCountD (VariableDeclarator ident init) =
     Suc (case init of None \<Rightarrow> 0 | Some x \<Rightarrow> declaratorCountE x)"
| "declaratorCountS (ImportDeclaration specifiers source) = 0"
| "declaratorCountS (VariableDeclaration declarations) =
     sum_list (map declaratorCountD declarations)"
| "declaratorCountS (ExpressionStatement e) = declaratorCountE e"
| "declaratorCountS (OtherStatement kind body) = sum_list (map declaratorCountS body)"

lemma sum_list_member_le:
  fixes f :: "'a \<Rightarrow> nat"
  shows "x \<in> set xs \<Longrightarrow> f x \<le> sum_list (map f xs)"
  by (induction xs) auto

lemma sum_list_sort_key:
  fixes f :: "'a \<Rightarrow> nat"
  shows "sum_list (map f (sort_key k xs)) = sum_list (map f xs)"
proof -
  have "mset (map f (sort_key k xs)) = mset (map f xs)"
    by simp
  then show ?thesis
    by (metis sum_mset_sum_list)
qed

lemma declaratorCount_newMetadataEntry:
  "declaratorCountE (newMetadataEntry E protocolKey productId' chainKey fileKey') = 0"
  by (simp add: newMetadataEntry_def)

lemma declaratorCount_sortByEntryName:
  "sortByEntryName elements = Inr sortedElements \<Longrightarrow>
   sum_list (map declaratorCountE sortedElements) = sum_list (map declaratorCountE elements)"
  by (auto simp: sortByEntryName_def sortEntries_def sum_list_sort_key split: option.splits)

lemma declaratorCount_addAdapterMetadataEntry:
  "addAdapterMetadataEntry E protocolKey productId' chainKey fileKey' d = Inr d' \<Longrightarrow>
   declaratorCountD d' = declaratorCountD d"
  unfolding addAdapterMetadataEntry_def
  by (auto simp: declaratorCount_newMetadataEntry dest!: declaratorCount_sortByEntryName
      split: declarator.splits option.splits expr.splits list.splits sum.splits)

lemma traversal_order:
  "a < a' \<or> a \<le> a' \<and> b < b' \<Longrightarrow> ((a, b), (a', b')) \<in> less_than <*lex*> less_than"
  by auto

lemma declaratorCount_property:
  assumes "(k, v) \<in> set properties"
  shows "declaratorCountE k
           \<le> sum_list (map (\<lambda>(k, v). declaratorCountE k + declaratorCountE v) properties)"
    and "declaratorCountE v
           \<le> sum_list (map (\<lambda>(k, v). declaratorCountE k + declaratorCountE v) properties)"
  using sum_list_member_le[OF assms, of "\<lambda>(k, v). declaratorCountE k + declaratorCountE v"]
  by auto

lemma size_property:
  assumes "(k, v) \<in> set properties"
  shows "size k \<le> size_list (size_prod size size) properties"
    and "size v \<le> size_list (size_prod size size) properties"
  using size_list_estimation'[OF assms, of "size k + size v + Suc 0" "size_prod size size"]
  by auto

lemma size_member:
  "x \<in> set xs \<Longrightarrow> size x \<le> size_list size xs"
  using size_list_estimation'[of x xs "size x" size] by simp

text \<open>
  The traversal that \<open>visit\<close> runs below the program node. Recast walks the tree in
  pre-order and calls \<open>visitVariableDeclarator\<close> at every declarator it comes to. The
  method returns \<open>false\<close> for a declarator whose \<open>id\<close> is not an identifier, and the
  traversal does not go below that declarator. Otherwise the method edits the declarator
  when it is named \<open>MetadataFiles\<close> (a throw of the edit ends the traversal) and calls
  \<open>this.traverse(path)\<close>: the traversal goes on below the declarator, into the
  initializer as the edit has left it. At every other node the traversal goes on with
  the children of the node, in their order.
\<close>

function traverseExpr ::
    "env \<Rightarrow> string \<Rightarrow> string \<Rightarrow> string \<Rightarrow> string \<Rightarrow> expr \<Rightarrow> error + expr"
and visitVariableDeclarator ::
    "env \<Rightarrow> string \<Rightarrow> string \<Rightarrow> string \<Rightarrow> string \<Rightarrow> declarator \<Rightarrow> error + declarator"
and traverseStmt ::
    "env \<Rightarrow> string \<Rightarrow> string \<Rightarrow> string \<Rightarrow> string \<Rightarrow> stmt \<Rightarrow> error + stmt" where
  "traverseExpr E protocolKey productId' chainKey fileKey' (Identifier n) = Inr (Identifier n)"
| "traverseExpr E protocolKey productId' chainKey fileKey' (StringLiteral v) =
     Inr (StringLiteral v)"
| "traverseExpr E protocolKey productId' chainKey fileKey' (MemberExpression object property) =
     (case traverseExpr E protocolKey productId' chainKey fileKey' object of
        Inl e \<Rightarrow> Inl e
      | Inr object' \<Rightarrow>
          (case traverseExpr E protocolKey productId' chainKey fileKey' property of
             Inl e \<Rightarrow> Inl e
           | Inr property' \<Rightarrow> Inr (MemberExpression object' property')))"
| "traverseExpr E protocolKey productId' chainKey fileKey' (CallExpression callee arguments) =
     (case traverseExpr E protocolKey productId' chainKey fileKey' callee of
        Inl e \<Rightarrow> Inl e
      | Inr callee' \<Rightarrow>
          (case mapE (traverseExpr E protocolKey productId' chainKey fileKey') arguments of
             Inl e \<Rightarrow> Inl e
           | Inr arguments' \<Rightarrow> Inr (CallExpression callee' arguments')))"
| "traverseExpr E protocolKey productId' chainKey fileKey' (ObjectExpression properties) =
     (case mapE (\<lambda>(k, v).
                   case traverseExpr E protocolKey productId' chainKey fileKey' k of
                     Inl e \<Rightarrow> Inl e
                   | Inr k' \<Rightarrow>
                       (case traverseExpr E protocolKey productId' chainKey fileKey' v of
                          Inl e \<Rightarrow> Inl e
                        | Inr v' \<Rightarrow> Inr (k', v')))
             properties of
        Inl e \<Rightarrow> Inl e
      | Inr properties' \<Rightarrow> Inr (ObjectExpression properties'))"
| "traverseExpr E protocolKey productId' chainKey fileKey' (ArrayExpression elements) =
     (case mapE (traverseExpr E protocolKey productId' chainKey fileKey') elements of
        Inl e \<Rightarrow> Inl e
      | Inr elements' \<Rightarrow> Inr (ArrayExpression elements'))"
| "traverseExpr E protocolKey productId' chainKey fileKey' (NewExpression callee arguments) =
     (case traverseExpr E protocolKey productId' chainKey fileKey' callee of
        Inl e \<Rightarrow> Inl e
      | Inr callee' \<Rightarrow>
          (case mapE (traverseExpr E protocolKey productId' chainKey fileKey') arguments of
             Inl e \<Rightarrow> Inl e
           | Inr arguments' \<Rightarrow> Inr (NewExpression callee' arguments')))"
| "traverseExpr E protocolKey productId' chainKey fileKey' (FunctionExpression kind body) =
     (case mapE (traverseStmt E protocolKey productId' chainKey fileKey') body of
        Inl e \<Rightarrow> Inl e
      | Inr body' \<Rightarrow> Inr (FunctionExpression kind body'))"
| "traverseExpr E protocolKey productId' chainKey fileKey' (OtherExpression kind children) =
     (case mapE (traverseExpr E protocolKey productId' chainKey fileKey') children of
        Inl e \<Rightarrow> Inl e
      | Inr children' \<Rightarrow> Inr (OtherExpression kind children'))"
| "visitVariableDeclarator E protocolKey productId' chainKey fileKey'
       (VariableDeclarator (OtherPattern p) init) =
     Inr (VariableDeclarator (OtherPattern p) init)"
| "visitVariableDeclarator E protocolKey productId' chainKey fileKey'
       (VariableDeclarator (IdentifierPattern name) init) =
     (case (if name = ''MetadataFiles''
            then addAdapterMetadataEntry E protocolKey productId' chainKey fileKey'
                   (VariableDeclarator (IdentifierPattern name) init)
            else Inr (VariableDeclarator (IdentifierPattern name) init)) of
        Inl e \<Rightarrow> Inl e
      | Inr (VariableDeclarator ident init') \<Rightarrow>
          (case init' of
             None \<Rightarrow> Inr (VariableDeclarator ident None)
           | Some x \<Rightarrow>
               (case traverseExpr E protocolKey productId' chainKey fileKey' x of
                  Inl e \<Rightarrow> Inl e
                | Inr x' \<Rightarrow> Inr (VariableDeclarator ident (Some x')))))"
| "traverseStmt E protocolKey productId' chainKey fileKey' (ImportDeclaration specifiers source) =
     Inr (ImportDeclaration specifiers source)"
| "traverseStmt E protocolKey productId' chainKey fileKey' (VariableDeclaration declarations) =
     (case mapE (visitVariableDeclarator E protocolKey productId' chainKey fileKey') declarations of
        Inl e \<Rightarrow> Inl e
      | Inr declarations' \<Rightarrow> Inr (VariableDeclaration declarations'))"
| "traverseStmt E protocolKey productId' chainKey fileKey' (ExpressionStatement expression) =
     (case traverseExpr E protocolKey productId' chainKey fileKey' expression of
        Inl e \<Rightarrow> Inl e
      | Inr expression' \<Rightarrow> Inr (ExpressionStatement expression'))"
| "traverseStmt E protocolKey productId' chainKey fileKey' (OtherStatement kind body) =
     (case mapE (traverseStmt E protocolKey productId' chainKey fileKey') body of
        Inl e \<Rightarrow> Inl e
      | Inr body' \<Rightarrow> Inr (OtherStatement kind body'))"
  by pat_completeness auto

termination
proof (relation "inv_image (less_than <*lex*> less_than)
      (\<lambda>x. case x of
         Inl (E, pk, pr, ck, fk, e) \<Rightarrow> (declaratorCountE e, size e)
       | Inr (Inl (E, pk, pr, ck, fk, d)) \<Rightarrow> (declaratorCountD d, size d)
       | Inr (Inr (E, pk, pr, ck, fk, s)) \<Rightarrow> (declaratorCountS s, size s))", goal_cases)
  case 1
  show ?case by (intro wf_inv_image wf_lex_prod wf_less_than)
qed (auto simp del: in_lex_prod intro!: traversal_order
      simp: less_Suc_eq_le sum_list_member_le trans_le_add2 declaratorCount_property
        size_property size_member trans_le_add1
      dest!: declaratorCount_addAdapterMetadataEntry split: if_splits)

text \<open>
  The call of \<open>visit\<close> in \<open>addStaticImport\<close>: \<open>visitProgram\<close> edits the import section
  of the program body, then \<open>this.traverse(path)\<close> goes through the statements of the
  edited body.
\<close>

definition visit :: "env \<Rightarrow> metadataKey \<Rightarrow> stmt list \<Rightarrow> error + stmt list" where
  "visit E d body =
     (case addAdapterMetadataImport E (protocolKeyOf E (protocolId d)) (protocolId d)
             (productId d) (chainKeyOf E (chainId d)) (chainId d) (fileKey d) body of
        Inl e \<Rightarrow> Inl e
      | Inr body' \<Rightarrow>
          mapE (traverseStmt E (protocolKeyOf E (protocolId d)) (productId d)
                  (chainKeyOf E (chainId d)) (fileKey d))
            body')"

section \<open>Files and the orchestrator\<close>

text \<open>
  The state the script acts on: the files by path; the lines printed with
  \<open>console.error\<close>, each with its chalk colour; the messages given to \<open>logger.error\<close>;
  and, to state which adapters a run has asked, the methods invoked so far, each with the
  name of its adapter.
\<close>

datatype colour = Yellow | Red | Green

record state =
  files :: "string \<rightharpoonup> string"
  stderr :: "(colour \<times> string) list"
  logged :: "string list"
  invocations :: "(string \<times> string) list"

text \<open>How a step of the script ends: normally, by \<open>return\<close> from the action, or by a throw.\<close>

datatype flow = Next state | Returned state | Thrown error state

text \<open>
  Modelled from the spec: \<open>writeAndLintFile\<close> of \<open>../core/utils/writeAndLintFile\<close>,
  which is not among the sources. It is a scoped write followed by the shared formatting
  pass, whose output is what is persisted at the path.
\<close>

definition writeAndLintFile :: "env \<Rightarrow> string \<Rightarrow> string \<Rightarrow> state \<Rightarrow> state" where
  "writeAndLintFile E filePath content s = s\<lparr>files := (files s)(filePath \<mapsto> lint E filePath content)\<rparr>"

definition metadataFilePath :: "env \<Rightarrow> metadataKey \<Rightarrow> string" where
  "metadataFilePath E d =
     ''./packages/adapters-library/src/adapters/'' @ protocolId d @ ''/products/'' @ productId d
       @ ''/metadata/'' @ ChainName E (chainId d) @ ''.'' @ fileKey d @ ''.json''"

definition writeMetadataToFile :: "env \<Rightarrow> metadataKey \<Rightarrow> json \<Rightarrow> state \<Rightarrow> state" where
  "writeMetadataToFile E d metadata s =
     writeAndLintFile E (resolve E (metadataFilePath E d)) (stringify E metadata) s"

definition adapterMetadataFile :: "env \<Rightarrow> string" where
  "adapterMetadataFile E = resolve E ''./packages/adapters-library/src/core/metadata/AdapterMetadata.ts''"

text \<open>
  \<open>addStaticImport\<close>: read the registry file, parse it, edit the tree, print it and
  write it. The read throws when the file is missing, the parser when it rejects the
  text.
\<close>

definition addStaticImport :: "env \<Rightarrow> metadataKey \<Rightarrow> state \<Rightarrow> flow" where
  "addStaticImport E d s =
     (case files s (adapterMetadataFile E) of
        None \<Rightarrow> Thrown ReadFailure s
      | Some contents \<Rightarrow>
          (case parse E contents of
             None \<Rightarrow> Thrown ParseFailure s
           | Some ast \<Rightarrow>
               (case visit E d ast of
                  Inl e \<Rightarrow> Thrown e s
                | Inr ast' \<Rightarrow> Next (writeAndLintFile E (adapterMetadataFile E) (print E ast') s))))"

text \<open>
  An adapter as the orchestrator sees it: \<open>adapterSettings.version\<close>, what
  \<open>getProtocolTokens(true)\<close> settles to, and what \<open>buildMetadata(true)\<close> settles to
  when the adapter has such a method (\<open>isIMetadataBuilder\<close>).
\<close>

datatype 'a promise = Resolved 'a | Rejected error

record metadataDetails =
  metadata :: json
  fileDetails :: metadataKey

record adapter =
  adapterName :: string
  version :: nat
  getProtocolTokens :: "metadataDetails option promise"
  buildMetadata :: "metadataDetails option promise option"

text \<open>
  The handler given to \<open>.catch\<close>: an error that is not a \<open>NotImplementedError\<close> is
  thrown again, a \<open>NotImplementedError\<close> becomes undefined.
\<close>

definition catchNotImplemented :: "'a option promise \<Rightarrow> error + 'a option" where
  "catchNotImplemented p =
     (case p of
        Resolved r \<Rightarrow> Inr r
      | Rejected e \<Rightarrow> if e \<noteq> NotImplementedError then Inl e else Inr None)"

definition join :: "string \<Rightarrow> string list \<Rightarrow> string" where
  "join sep xs = (case xs of [] \<Rightarrow> [] | y # ys \<Rightarrow> foldl (\<lambda>acc x. acc @ sep @ x) y ys)"

definition checksumReport :: "string list \<Rightarrow> (colour \<times> string) list" where
  "checksumReport invalidAddresses =
     [(Yellow, join [CHR 0x0A] invalidAddresses),
      (Red, CHR 0x0A # '' * The above addresses found in the metadata file are not in checksum format.''),
      (Green, CHR 0x0A # '' * Please ensure that addresses are in checksum format by wrapping them with getAddress from the ethers package.''),
      (Green, CHR 0x0A # '' * Please checksum your addresses inside the buildMetadata() method.'')]"

text \<open>
  The second half of the loop body of \<open>buildMetadata\<close>: skip an adapter without
  metadata, stop the action on addresses that are not in checksum format, otherwise write
  the artifact and then register it.
\<close>

definition registerMetadata :: "env \<Rightarrow> metadataDetails option \<Rightarrow> state \<Rightarrow> flow" where
  "registerMetadata E metadataDetails s =
     (case metadataDetails of
        None \<Rightarrow> Next s
      | Some details \<Rightarrow>
          (let invalidAddresses = getMetadataInvalidAddresses E (metadata details) in
           if length invalidAddresses > 0
           then Returned (s\<lparr>stderr := stderr s @ checksumReport invalidAddresses\<rparr>)
           else addStaticImport E (fileDetails details)
                  (writeMetadataToFile E (fileDetails details) (metadata details) s)))"

text \<open>
  The first half of the loop body of \<open>buildMetadata\<close>: a version 2 adapter is asked
  for its protocol tokens; an adapter with a \<open>buildMetadata\<close> method is then asked to
  build its metadata, and that answer replaces the first. The result comes with the
  methods that were invoked.
\<close>

definition fetchMetadataDetails :: "adapter \<Rightarrow> (error + metadataDetails option) \<times> string list" where
  "fetchMetadataDetails a =
     (case (if version a = 2
            then (catchNotImplemented (getProtocolTokens a), [''getProtocolTokens''])
            else (Inr None, [])) of
        (Inl e, methods) \<Rightarrow> (Inl e, methods)
      | (Inr metadataDetails1, methods) \<Rightarrow>
          (case buildMetadata a of
             None \<Rightarrow> (Inr metadataDetails1, methods)
           | Some p \<Rightarrow> (catchNotImplemented p, methods @ [''buildMetadata''])))"

definition invoked :: "adapter \<Rightarrow> string list \<Rightarrow> state \<Rightarrow> state" where
  "invoked a methods s = s\<lparr>invocations := invocations s @ map (Pair (adapterName a)) methods\<rparr>"

text \<open>The loop body of \<open>buildMetadata\<close> for one adapter.\<close>

definition processAdapter :: "env \<Rightarrow> adapter \<Rightarrow> state \<Rightarrow> flow" where
  "processAdapter E a s =
     (case fetchMetadataDetails a of
        (Inl e, methods) \<Rightarrow> Thrown e (invoked a methods s)
      | (Inr metadataDetails, methods) \<Rightarrow> registerMetadata E metadataDetails (invoked a methods s))"

fun adaptersLoop :: "env \<Rightarrow> adapter list \<Rightarrow> state \<Rightarrow> flow" where
  "adaptersLoop E [] s = Next s"
| "adaptersLoop E (a # as) s =
     (case processAdapter E a s of
        Next s' \<Rightarrow> adaptersLoop E as s'
      | Returned s' \<Rightarrow> Returned s'
      | Thrown e s' \<Rightarrow> Thrown e s')"

text \<open>
  What the action is given: the table \<open>supportedProtocols\<close> in the order of its
  entries, the providers by chain, the adapters by chain and protocol in the order of
  registration, and the two filters (\<open>None\<close> when the option is not given).
\<close>

record config =
  supportedProtocols :: "(string \<times> nat list) list"
  chainProviders :: "nat \<Rightarrow> bool"
  fetchChainProtocolAdapters :: "nat \<Rightarrow> string \<Rightarrow> adapter list"
  filterProtocolIds :: "string list option"
  filterChainIds :: "nat list option"

definition filteredOut :: "'a list option \<Rightarrow> 'a \<Rightarrow> bool" where
  "filteredOut ids x = (case ids of None \<Rightarrow> False | Some included \<Rightarrow> x \<notin> set included)"

fun chainsLoop :: "env \<Rightarrow> config \<Rightarrow> string \<Rightarrow> nat list \<Rightarrow> state \<Rightarrow> flow" where
  "chainsLoop E C p [] s = Next s"
| "chainsLoop E C p (c # cs) s =
     (if filteredOut (filterChainIds C) c then chainsLoop E C p cs s
      else if \<not> chainProviders C c
      then Thrown (ProviderMissingError c) (s\<lparr>logged := logged s @ [''No provider found for chain'']\<rparr>)
      else
        (case adaptersLoop E (fetchChainProtocolAdapters C c p) s of
           Next s' \<Rightarrow> chainsLoop E C p cs s'
         | Returned s' \<Rightarrow> Returned s'
         | Thrown e s' \<Rightarrow> Thrown e s'))"

fun protocolsLoop :: "env \<Rightarrow> config \<Rightarrow> (string \<times> nat list) list \<Rightarrow> state \<Rightarrow> flow" where
  "protocolsLoop E C [] s = Next s"
| "protocolsLoop E C ((p, supportedChains) # ps) s =
     (if filteredOut (filterProtocolIds C) p then protocolsLoop E C ps s
      else
        (case chainsLoop E C p supportedChains s of
           Next s' \<Rightarrow> protocolsLoop E C ps s'
         | Returned s' \<Rightarrow> Returned s'
         | Thrown e s' \<Rightarrow> Thrown e s'))"

text \<open>The action of the \<open>build-metadata\<close> command.\<close>

definition buildMetadataAction :: "env \<Rightarrow> config \<Rightarrow> state \<Rightarrow> flow" where
  "buildMetadataAction E C s = protocolsLoop E C (supportedProtocols C) s"

section \<open>Notions of the specification\<close>

text \<open>
  The generated identifier name and the artifact path as the specification words them:
  the protocol's symbolic key, the pascal-cased product id, the chain's symbolic key and
  the pascal-cased file key, concatenated; and the template
  \<open>adapters/<protocolId>/products/<productId>/metadata/<chainName>.<fileKey>.json\<close>.
\<close>

definition generatedIdentifier :: "env \<Rightarrow> metadataKey \<Rightarrow> string" where
  "generatedIdentifier E d =
     protocolKeyOf E (protocolId d) @ pascalCase E (productId d)
       @ chainKeyOf E (chainId d) @ pascalCase E (fileKey d)"

definition artifactPath :: "env \<Rightarrow> metadataKey \<Rightarrow> string" where
  "artifactPath E d =
     ''adapters/'' @ protocolId d @ ''/products/'' @ productId d @ ''/metadata/''
       @ ChainName E (chainId d) @ ''.'' @ fileKey d @ ''.json''"

text \<open>
  A statement that is not an import declaration without specifiers (such as
  \<open>import './x'\<close>), and a statement that is an import declaration whose first
  specifier binds the name.
\<close>

definition hasSpecifier :: "stmt \<Rightarrow> bool" where
  "hasSpecifier x = (case x of ImportDeclaration [] _ \<Rightarrow> False | _ \<Rightarrow> True)"

definition bindsFirst :: "string \<Rightarrow> stmt \<Rightarrow> bool" where
  "bindsFirst name x =
     (case x of ImportDeclaration (Specifier _ local # _) _ \<Rightarrow> local = Some name | _ \<Rightarrow> False)"

text \<open>
  The declarators the traversal reaches, in the order in which it comes to them in the
  tree as given: a declarator whose \<open>id\<close> is an identifier, then the declarators that
  are reached in its initializer. Nothing is reached below a declarator whose \<open>id\<close> is
  not an identifier. Among the declarators reached, the initializers of those named
  \<open>MetadataFiles\<close>.
\<close>

fun reachedE :: "expr \<Rightarrow> declarator list"
and reachedD :: "declarator \<Rightarrow> declarator list"
and reachedS :: "stmt \<Rightarrow> declarator list" where
  "reachedE (Identifier n) = []"
| "reachedE (StringLiteral v) = []"
| "reachedE (MemberExpression object property) = reachedE object @ reachedE property"
| "reachedE (CallExpression callee arguments) =
     reachedE callee @ concat (map reachedE arguments)"
| "reachedE (ObjectExpression properties) =
     concat (map (\<lambda>(k, v). reachedE k @ reachedE v) properties)"
| "reachedE (ArrayExpression elements) = concat (map reachedE elements)"
| "reachedE (NewExpression callee arguments) =
     reachedE callee @ concat (map reachedE arguments)"
| "reachedE (FunctionExpression kind body) = concat (map reachedS body)"
| "reachedE (OtherExpression kind children) = concat (map reachedE children)"
| "reachedD (VariableDeclarator (IdentifierPattern name) init) =
     VariableDeclarator (IdentifierPattern name) init
       # (case init of None \<Rightarrow> [] | Some x \<Rightarrow> reachedE x)"
| "reachedD (VariableDeclarator (OtherPattern p) init) = []"
| "reachedS (ImportDeclaration specifiers source) = []"
| "reachedS (VariableDeclaration declarations) = concat (map reachedD declarations)"
| "reachedS (ExpressionStatement expression) = reachedE expression"
| "reachedS (OtherStatement kind body) = concat (map reachedS body)"

definition programDeclarators :: "stmt list \<Rightarrow> declarator list" where
  "programDeclarators body = concat (map reachedS body)"

definition isMetadataFiles :: "declarator \<Rightarrow> bool" where
  "isMetadataFiles d =
     (case d of VariableDeclarator (IdentifierPattern name) _ \<Rightarrow> name = ''MetadataFiles'' | _ \<Rightarrow> False)"

fun initOf :: "declarator \<Rightarrow> expr option" where
  "initOf (VariableDeclarator _ init) = init"

definition metadataFilesInits :: "stmt list \<Rightarrow> expr option list" where
  "metadataFilesInits body = map initOf (filter isMetadataFiles (programDeclarators body))"

text \<open>
  Shapes of an initializer of \<open>MetadataFiles\<close>: a new-expression whose first argument
  is an array expression; one whose array holds a pair with the given value identifier;
  and the expected one, a new map from an array of pairs, each a key expression and a
  value identifier.
\<close>

definition newMapOfArray :: "expr option \<Rightarrow> bool" where
  "newMapOfArray init =
     (case init of Some (NewExpression _ (ArrayExpression _ # _)) \<Rightarrow> True | _ \<Rightarrow> False)"

definition registers :: "string \<Rightarrow> expr option \<Rightarrow> bool" where
  "registers name init =
     (case init of
        Some (NewExpression _ (ArrayExpression elements # _)) \<Rightarrow> list_ex (entryMatches name) elements
      | _ \<Rightarrow> False)"

fun pairEntry :: "expr \<Rightarrow> bool" where
  "pairEntry (ArrayExpression [_, Identifier _]) = True"
| "pairEntry _ = False"

fun mapOfPairs :: "expr option \<Rightarrow> bool" where
  "mapOfPairs (Some (NewExpression _ (ArrayExpression elements # _))) = list_all pairEntry elements"
| "mapOfPairs _ = False"

text \<open>
  The key by which the entries are sorted, and an initializer whose array is in the
  order of the registry sorting rule.
\<close>

definition entryKey :: "expr \<Rightarrow> string" where
  "entryKey entry = projr (entryName entry)"

definition sortedByIdentifier :: "expr option \<Rightarrow> bool" where
  "sortedByIdentifier init =
     (case init of
        Some (NewExpression _ (ArrayExpression elements # _)) \<Rightarrow> sorted (map entryKey elements)
      | _ \<Rightarrow> False)"

text \<open>
  A registry program of the expected shape: every import declaration has a specifier,
  and every \<open>MetadataFiles\<close> declarator that the traversal reaches is initialized with a
  new map from an array of pairs.
\<close>

definition expectedShape :: "stmt list \<Rightarrow> bool" where
  "expectedShape body \<longleftrightarrow> list_all hasSpecifier body \<and> list_all mapOfPairs (metadataFilesInits body)"

text \<open>
  The run of the action from \<open>s0\<close> reaches the adapter \<open>a\<close> in the state \<open>s\<close>: the
  protocols, the chains and the adapters before it in the enumeration have been
  processed and none of them stopped the run; its protocol and its chain pass the
  filters and the chain has a provider.
\<close>

definition runReaches :: "env \<Rightarrow> config \<Rightarrow> state \<Rightarrow> adapter \<Rightarrow> state \<Rightarrow> bool" where
  "runReaches E C s0 a s \<longleftrightarrow>
     (\<exists>ps1 p supportedChains ps2 cs1 c cs2 as1 as2 s1 s2.
        supportedProtocols C = ps1 @ (p, supportedChains) # ps2 \<and>
        protocolsLoop E C ps1 s0 = Next s1 \<and>
        \<not> filteredOut (filterProtocolIds C) p \<and>
        supportedChains = cs1 @ c # cs2 \<and>
        chainsLoop E C p cs1 s1 = Next s2 \<and>
        \<not> filteredOut (filterChainIds C) c \<and>
        chainProviders C c \<and>
        fetchChainProtocolAdapters C c p = as1 @ a # as2 \<and>
        adaptersLoop E as1 s2 = Next s)"

text \<open>
  The metadata-producing capabilities the orchestrator finds on an adapter, in the order
  in which it invokes them, and a promise that does not end the run: it resolves, or it
  rejects with a \<open>NotImplementedError\<close>.
\<close>

definition capabilities :: "adapter \<Rightarrow> (string \<times> metadataDetails option promise) list" where
  "capabilities a =
     (if version a = 2 then [(''getProtocolTokens'', getProtocolTokens a)] else [])
     @ (case buildMetadata a of None \<Rightarrow> [] | Some p \<Rightarrow> [(''buildMetadata'', p)])"

fun recovers :: "'a promise \<Rightarrow> bool" where
  "recovers (Resolved _) = True"
| "recovers (Rejected e) = (e = NotImplementedError)"

section \<open>Worked examples\<close>

text \<open>
  An instance of the environment for the examples. Its case conversion is a table for
  the words of the examples, its validator rejects one string, and its parser and
  printer know the registry texts of the examples.
\<close>

definition exampleName :: string where
  "exampleName = ''AaveV2StableDebtTokenEthereumStableDebtTokenV2''"

definition exampleImport :: stmt where
  "exampleImport =
     ImportDeclaration [Specifier ImportDefaultSpecifier (Some exampleName)]
       ''../../adapters/aave-v2/products/stable-debt-token/metadata/ethereum.stable-debt-token-v2.json''"

definition exampleEntry :: expr where
  "exampleEntry =
     ArrayExpression
       [CallExpression (Identifier ''metadataKey'')
          [ObjectExpression
             [(Identifier ''protocolId'',
                 MemberExpression (Identifier ''Protocol'') (Identifier ''AaveV2'')),
              (Identifier ''productId'', StringLiteral ''stable-debt-token''),
              (Identifier ''chainId'',
                 MemberExpression (Identifier ''Chain'') (Identifier ''Ethereum'')),
              (Identifier ''fileKey'', StringLiteral ''stable-debt-token-v2'')]],
        Identifier exampleName]"

definition chainsImport :: stmt where
  "chainsImport = ImportDeclaration [Specifier ImportSpecifier (Some ''Chain'')] ''../constants/chains''"

definition exampleMap :: "expr list \<Rightarrow> stmt" where
  "exampleMap entries =
     OtherStatement ''ExportNamedDeclaration''
       [VariableDeclaration
          [VariableDeclarator (IdentifierPattern ''MetadataFiles'')
             (Some (NewExpression (Identifier ''Map'') [ArrayExpression entries]))]]"

definition exampleRegistry :: "stmt list" where
  "exampleRegistry = [chainsImport, exampleMap []]"

definition exampleRegistered :: "stmt list" where
  "exampleRegistered = [chainsImport, exampleImport, exampleMap [exampleEntry]]"

definition exampleUnrelated :: "stmt list" where
  "exampleUnrelated =
     [VariableDeclaration
        [VariableDeclarator (IdentifierPattern ''MetadataFiles'') (Some (OtherExpression ''1'' []))]]"

text \<open>
  A declaration \<open>const helper = () => { const MetadataFiles = ... }\<close>: a declarator of
  the given pattern whose initializer is an arrow function that holds a declarator named
  \<open>MetadataFiles\<close> with the given initializer.
\<close>

definition exampleHelper :: "pattern \<Rightarrow> expr \<Rightarrow> stmt" where
  "exampleHelper ident init =
     VariableDeclaration
       [VariableDeclarator ident
          (Some (FunctionExpression ''ArrowFunctionExpression''
             [VariableDeclaration
                [VariableDeclarator (IdentifierPattern ''MetadataFiles'') (Some init)]]))]"

text \<open>
  Three registry programs: the registered one followed by a helper whose
  \<open>MetadataFiles\<close> is the literal \<open>1\<close>; a helper whose \<open>MetadataFiles\<close> is
  \<open>new Map([[1]])\<close>, followed by a \<open>MetadataFiles\<close> that is the literal \<open>1\<close>; and a
  helper bound by the pattern \<open>{ a }\<close> whose \<open>MetadataFiles\<close> is the literal \<open>1\<close>.
\<close>

definition exampleNested :: "stmt list" where
  "exampleNested =
     exampleRegistered @ [exampleHelper (IdentifierPattern ''helper'') (OtherExpression ''1'' [])]"

definition exampleSortKey :: "stmt list" where
  "exampleSortKey =
     exampleHelper (IdentifierPattern ''helper'')
       (NewExpression (Identifier ''Map'')
          [ArrayExpression [ArrayExpression [OtherExpression ''1'' []]]])
     # exampleUnrelated"

definition exampleSkipped :: "stmt list" where
  "exampleSkipped = [exampleHelper (OtherPattern ''{ a }'') (OtherExpression ''1'' [])]"

definition exampleEnv :: env where
  "exampleEnv =
     \<lparr>pascalCase = (\<lambda>w. if w = ''stable-debt-token'' then ''StableDebtToken''
                         else if w = ''stable-debt-token-v2'' then ''StableDebtTokenV2''
                         else if w = ''a'' then ''A''
                         else if w = ''b'' then ''B''
                         else if w = ''a-ethereum'' then ''AEthereum''
                         else if w = ''ethereum-b'' then ''EthereumB'' else w),
      protocolKeyOf = (\<lambda>p. if p = ''aave-v2'' then ''AaveV2'' else ''Stargate''),
      chainKeyOf = (\<lambda>c. if c = 1 then ''Ethereum'' else ''Arbitrum''),
      ChainName = (\<lambda>c. if c = 1 then ''ethereum'' else ''arbitrum''),
      getMetadataInvalidAddresses =
        (\<lambda>j. case j of JString a \<Rightarrow> if a = ''0xab'' then [a] else [] | _ \<Rightarrow> []),
      parse = (\<lambda>text.
         if text = ''registry'' then Some exampleRegistry
         else if text = ''registered'' then Some exampleRegistered
         else if text = ''unrelated'' then Some exampleUnrelated
         else if text = ''bare'' then Some (ImportDeclaration [] ''./x'' # exampleUnrelated)
         else if text = ''no map'' then Some [chainsImport]
         else if text = ''nested'' then Some exampleNested
         else if text = ''sort key'' then Some exampleSortKey
         else if text = ''skipped'' then Some exampleSkipped
         else None),
      print = (\<lambda>ast.
         if ast = exampleRegistered then ''registered''
         else if ast = [chainsImport, exampleImport] then ''import only''
         else if ast = exampleImport # exampleSkipped then ''skipped with import''
         else ''other''),
      stringify = (\<lambda>j. ''json''),
      resolve = (\<lambda>p. ''/repo/'' @ p),
      lint = (\<lambda>p text. text)\<rparr>"

definition exampleKey :: metadataKey where
  "exampleKey = \<lparr>protocolId = ''aave-v2'', productId = ''stable-debt-token'', chainId = 1,
                  fileKey = ''stable-debt-token-v2''\<rparr>"

definition otherKey :: metadataKey where
  "otherKey = \<lparr>protocolId = ''stargate'', productId = ''pool'', chainId = 2, fileKey = ''lp''\<rparr>"

text \<open>
  A third key, and two distinct keys with the same generated identifier
  \<open>AaveV2AEthereumEthereumB\<close>, each with the registry it leaves when it is registered
  first in \<open>exampleRegistry\<close>.
\<close>

definition thirdKey :: metadataKey where
  "thirdKey = \<lparr>protocolId = ''stargate'', productId = ''a'', chainId = 2, fileKey = ''b''\<rparr>"

definition firstColliding :: metadataKey where
  "firstColliding =
     \<lparr>protocolId = ''aave-v2'', productId = ''a'', chainId = 1, fileKey = ''ethereum-b''\<rparr>"

definition secondColliding :: metadataKey where
  "secondColliding =
     \<lparr>protocolId = ''aave-v2'', productId = ''a-ethereum'', chainId = 1, fileKey = ''b''\<rparr>"

definition collidingRegistry :: "string \<Rightarrow> string \<Rightarrow> stmt list" where
  "collidingRegistry product file =
     [chainsImport,
      ImportDeclaration [Specifier ImportDefaultSpecifier (Some ''AaveV2AEthereumEthereumB'')]
        (''../../adapters/aave-v2/products/'' @ product @ ''/metadata/ethereum.'' @ file @ ''.json''),
      exampleMap
        [ArrayExpression
           [CallExpression (Identifier ''metadataKey'')
              [ObjectExpression
                 [(Identifier ''protocolId'',
                     MemberExpression (Identifier ''Protocol'') (Identifier ''AaveV2'')),
                  (Identifier ''productId'', StringLiteral product),
                  (Identifier ''chainId'',
                     MemberExpression (Identifier ''Chain'') (Identifier ''Ethereum'')),
                  (Identifier ''fileKey'', StringLiteral file)]],
            Identifier ''AaveV2AEthereumEthereumB'']]]"

definition exampleState :: "string \<Rightarrow> state" where
  "exampleState text =
     \<lparr>files = [adapterMetadataFile exampleEnv \<mapsto> text], stderr = [], logged = [], invocations = []\<rparr>"

definition exampleAdapter :: "string \<Rightarrow> metadataDetails option promise \<Rightarrow> adapter" where
  "exampleAdapter name tokens =
     \<lparr>adapterName = name, version = 2, getProtocolTokens = tokens, buildMetadata = None\<rparr>"

definition goodAdapter :: adapter where
  "goodAdapter =
     exampleAdapter ''good'' (Resolved (Some \<lparr>metadata = JString ''0xAB'', fileDetails = exampleKey\<rparr>))"

definition badAdapter :: adapter where
  "badAdapter =
     exampleAdapter ''bad'' (Resolved (Some \<lparr>metadata = JString ''0xab'', fileDetails = otherKey\<rparr>))"

definition laterAdapter :: adapter where
  "laterAdapter =
     exampleAdapter ''later'' (Resolved (Some \<lparr>metadata = JString ''0xCD'', fileDetails = otherKey\<rparr>))"

definition exampleConfig :: "adapter list \<Rightarrow> config" where
  "exampleConfig adapters =
     \<lparr>supportedProtocols = [(''aave-v2'', [1])],
      chainProviders = (\<lambda>c. True),
      fetchChainProtocolAdapters = (\<lambda>c p. adapters),
      filterProtocolIds = None,
      filterChainIds = Some [1]\<rparr>"

definition skippedAdapter :: adapter where
  "skippedAdapter = exampleAdapter ''skipped'' (Rejected NotImplementedError)"

definition failingAdapter :: adapter where
  "failingAdapter = exampleAdapter ''failing'' (Rejected (OtherError ''rpc''))"

text \<open>The state after \<open>goodAdapter\<close> has been processed from the registry text \<open>registry\<close>.\<close>

definition committedState :: state where
  "committedState =
     writeAndLintFile exampleEnv (adapterMetadataFile exampleEnv) ''registered''
       (writeMetadataToFile exampleEnv exampleKey (JString ''0xAB'')
          (invoked goodAdapter [''getProtocolTokens''] (exampleState ''registry'')))"

text \<open>
  The state in which the run on the registry text \<open>unrelated\<close> ends: the artifact of
  \<open>goodAdapter\<close> has been written, the registry file has not.
\<close>

definition failedState :: state where
  "failedState =
     (exampleState ''unrelated'')
       \<lparr>invocations := [(''good'', ''getProtocolTokens'')],
        files := (files (exampleState ''unrelated''))
          (''/repo/./packages/adapters-library/src/adapters/aave-v2/products/stable-debt-token/metadata/ethereum.stable-debt-token-v2.json''
             \<mapsto> ''json'')\<rparr>"

section \<open>Facts about the edits and the traversal\<close>

subsection \<open>The import-section edit\<close>

lemma importMatches_cases:
  "importMatches name x = (if \<not> hasSpecifier x then Inl TypeError else Inr (bindsFirst name x))"
  by (auto simp: importMatches_def hasSpecifier_def bindsFirst_def
      split: stmt.splits list.splits specifier.splits)

lemma findE_none:
  "(\<forall>x\<in>set xs. p x = Inr False) \<Longrightarrow> findE p xs = Inr None"
  by (induction xs) auto

lemma partition_run:
  "\<forall>x\<in>set imports. isImportDeclaration x \<Longrightarrow> \<forall>x\<in>set rest. \<not> isImportDeclaration x \<Longrightarrow>
   partition isImportDeclaration (imports @ rest) = (imports, rest)"
  by (simp add: filter_empty_conv o_def)

lemma findE_total: "(\<forall>y\<in>set xs. \<exists>b. p y = Inr b) \<Longrightarrow> \<exists>r. findE p xs = Inr r"
  by (induction xs) auto

lemma import_total:
  assumes "list_all hasSpecifier body"
  shows "\<exists>body'. addAdapterMetadataImport E pk pid pr ck cid fk body = Inr body'
           \<and> list_all hasSpecifier body'"
proof -
  let ?p = "importMatches (pk @ pascalCase E pr @ ck @ pascalCase E fk)"
  have "\<forall>y\<in>set (filter isImportDeclaration body). \<exists>b. ?p y = Inr b"
    using assms by (simp add: list_all_iff importMatches_cases)
  then obtain r where r: "findE ?p (filter isImportDeclaration body) = Inr r"
    using findE_total by blast
  have "hasSpecifier (buildImportAdapterMetadataEntry E pk pid pr ck cid fk)"
    by (simp add: buildImportAdapterMetadataEntry_def hasSpecifier_def)
  with r assms show ?thesis
    by (cases r) (auto simp: addAdapterMetadataImport_def list_all_iff)
qed

lemma findE_found:
  "(\<forall>y\<in>set pre. \<exists>b. p y = Inr b) \<Longrightarrow> p x = Inr True \<Longrightarrow> \<exists>z. findE p (pre @ x # post) = Inr (Some z)"
  by (induction pre) auto

lemma bindsFirst_hasSpecifier: "bindsFirst name x \<Longrightarrow> hasSpecifier x"
  by (cases x) (auto simp: hasSpecifier_def bindsFirst_def split: list.splits)

lemma import_found:
  assumes "filter isImportDeclaration body = pre @ x # post"
      and "\<forall>y\<in>set pre. hasSpecifier y"
      and "bindsFirst (pk @ pascalCase E pr @ ck @ pascalCase E fk) x"
    shows "addAdapterMetadataImport E pk pid pr ck cid fk body = Inr body"
proof -
  let ?p = "importMatches (pk @ pascalCase E pr @ ck @ pascalCase E fk)"
  have x: "?p x = Inr True"
    using assms(3) bindsFirst_hasSpecifier[OF assms(3)] by (simp add: importMatches_cases)
  have pre: "\<forall>y\<in>set pre. \<exists>b. ?p y = Inr b"
    using assms(2) by (simp add: importMatches_cases)
  have "\<exists>z. findE ?p (pre @ x # post) = Inr (Some z)"
    using pre x by (rule findE_found)
  then show ?thesis using assms(1)
    by (auto simp: addAdapterMetadataImport_def)
qed

lemma findE_error_split:
  "findE p xs = Inl e \<Longrightarrow>
   \<exists>pre x post. xs = pre @ x # post \<and> (\<forall>y\<in>set pre. p y = Inr False) \<and> p x = Inl e"
proof (induction xs)
  case Nil
  then show ?case by simp
next
  case (Cons a xs)
  show ?case
  proof (cases "p a")
    case (Inl e')
    with Cons.prems have "e' = e" by simp
    with Inl have "a # xs = [] @ a # xs \<and> (\<forall>y\<in>set []. p y = Inr False) \<and> p a = Inl e"
      by simp
    then show ?thesis by blast
  next
    case (Inr b)
    with Cons.prems have b: "\<not> b" and r: "findE p xs = Inl e"
      by (auto split: if_splits)
    from Cons.IH[OF r] obtain pre x post where
      "xs = pre @ x # post" "\<forall>y\<in>set pre. p y = Inr False" "p x = Inl e"
      by blast
    with Inr b have
      "a # xs = (a # pre) @ x # post \<and> (\<forall>y\<in>set (a # pre). p y = Inr False) \<and> p x = Inl e"
      by simp
    then show ?thesis by blast
  qed
qed

lemma findE_throws:
  "(\<forall>y\<in>set pre. p y \<noteq> Inr True) \<Longrightarrow> p x = Inl e \<Longrightarrow> \<exists>e'. findE p (pre @ x # post) = Inl e'"
  by (induction pre) (auto split: sum.splits)

lemma import_lookup_error:
  assumes "findE (importMatches name) xs = Inl e"
  shows "e = TypeError"
proof -
  from findE_error_split[OF assms] obtain x where "importMatches name x = Inl e" by blast
  then show ?thesis by (simp add: importMatches_cases split: if_splits)
qed

lemma addAdapterMetadataImport_error:
  "addAdapterMetadataImport E pk pid pr ck cid fk body = Inl e
   \<longleftrightarrow> findE (importMatches (pk @ pascalCase E pr @ ck @ pascalCase E fk))
         (filter isImportDeclaration body) = Inl e"
  by (auto simp: addAdapterMetadataImport_def split: sum.splits option.splits)

lemma reachedS_import: "isImportDeclaration x \<Longrightarrow> reachedS x = []"
  by (cases x) (auto simp: isImportDeclaration_def)

lemma programDeclarators_rest:
  "programDeclarators (filter (\<lambda>x. \<not> isImportDeclaration x) body) = programDeclarators body"
  by (induction body) (auto simp: programDeclarators_def reachedS_import)

lemma addAdapterMetadataImport_rest:
  assumes "addAdapterMetadataImport E pk pid pr ck cid fk body = Inr body'"
  shows "filter (\<lambda>x. \<not> isImportDeclaration x) body' = filter (\<lambda>x. \<not> isImportDeclaration x) body"
proof -
  have "isImportDeclaration (buildImportAdapterMetadataEntry E pk pid pr ck cid fk)"
    by (simp add: buildImportAdapterMetadataEntry_def isImportDeclaration_def)
  with assms show ?thesis
    by (auto simp: addAdapterMetadataImport_def o_def split: sum.splits option.splits)
qed

lemma addAdapterMetadataImport_declarators:
  assumes "addAdapterMetadataImport E pk pid pr ck cid fk body = Inr body'"
  shows "programDeclarators body' = programDeclarators body"
  using addAdapterMetadataImport_rest[OF assms] programDeclarators_rest[of body]
    programDeclarators_rest[of body'] by simp

lemma metadataFilesInits_rest:
  "metadataFilesInits (filter (\<lambda>x. \<not> isImportDeclaration x) body) = metadataFilesInits body"
  by (simp add: metadataFilesInits_def programDeclarators_rest)

subsection \<open>The registry-entry edit and the traversal\<close>

lemma mapE_id: "(\<And>x. x \<in> set xs \<Longrightarrow> f x = Inr x) \<Longrightarrow> mapE f xs = Inr xs"
  by (induction xs) auto

lemma mapE_map: "(\<And>x. x \<in> set xs \<Longrightarrow> f x = Inr (g x)) \<Longrightarrow> mapE f xs = Inr (map g xs)"
  by (induction xs) auto

lemma mapE_throws: "x \<in> set xs \<Longrightarrow> isl (f x) \<Longrightarrow> isl (mapE f xs)"
  by (induction xs) (auto split: sum.splits)

lemma mapE_error: "mapE f xs = Inl e \<Longrightarrow> \<exists>x\<in>set xs. f x = Inl e"
  by (induction xs) (auto split: sum.splits)

lemma newMapOfArray_cases:
  "newMapOfArray init \<longleftrightarrow> (\<exists>callee elements args. init = Some (NewExpression callee (ArrayExpression elements # args)))"
  by (auto simp: newMapOfArray_def split: option.splits expr.splits list.splits)

lemma entry_illTyped:
  "\<not> newMapOfArray (initOf d) \<Longrightarrow> addAdapterMetadataEntry E pk pr ck fk d = Inl IncorrectlyTypedMetadataFiles"
  by (cases d) (auto simp: addAdapterMetadataEntry_def newMapOfArray_def split: option.splits expr.splits list.splits)

lemma entry_registered:
  "registers (pk @ pascalCase E pr @ ck @ pascalCase E fk) (initOf d) \<Longrightarrow>
   addAdapterMetadataEntry E pk pr ck fk d = Inr d"
  by (cases d) (auto simp: addAdapterMetadataEntry_def registers_def list_ex_iff find_None_iff
      split: option.splits expr.splits list.splits)

text \<open>
  The declarators reached in an initializer. The entry edit keeps the pattern of the
  declarator and, up to their order, the declarators reached in its initializer.
\<close>

definition reachedInit :: "expr option \<Rightarrow> declarator list" where
  "reachedInit init = (case init of None \<Rightarrow> [] | Some x \<Rightarrow> reachedE x)"

lemma reachedE_newMetadataEntry: "reachedE (newMetadataEntry E pk pr ck fk) = []"
  by (simp add: newMetadataEntry_def)

lemma mset_sortByEntryName:
  "sortByEntryName elements = Inr sortedElements \<Longrightarrow>
   mset sortedElements = mset elements"
  by (auto simp: sortByEntryName_def sortEntries_def split: option.splits)

lemma mset_concat_map: "mset xs = mset ys \<Longrightarrow> mset (concat (map f xs)) = mset (concat (map f ys))"
proof -
  assume "mset xs = mset ys"
  then have "mset (map (\<lambda>x. mset (f x)) xs) = mset (map (\<lambda>x. mset (f x)) ys)"
    by (metis mset_map)
  then have "sum_list (map (\<lambda>x. mset (f x)) xs) = sum_list (map (\<lambda>x. mset (f x)) ys)"
    by (metis sum_mset_sum_list)
  then show ?thesis by (simp add: mset_concat o_def)
qed

lemma entry_reached:
  assumes "addAdapterMetadataEntry E pk pr ck fk (VariableDeclarator ident init)
           = Inr (VariableDeclarator ident' init')"
  shows "ident' = ident \<and> mset (reachedInit init') = mset (reachedInit init)"
proof (cases "newMapOfArray init")
  case False
  then show ?thesis using assms entry_illTyped[of "VariableDeclarator ident init"] by simp
next
  case True
  then obtain c es args where i: "init = Some (NewExpression c (ArrayExpression es # args))"
    by (auto simp: newMapOfArray_cases)
  show ?thesis
  proof (cases "find (entryMatches (pk @ pascalCase E pr @ ck @ pascalCase E fk)) es")
    case (Some a)
    then show ?thesis using assms i by (simp add: addAdapterMetadataEntry_def)
  next
    case None
    with assms i obtain sortedElements where
      s: "sortByEntryName (es @ [newMetadataEntry E pk pr ck fk]) = Inr sortedElements"
         "ident' = ident"
         "init' = Some (NewExpression c (ArrayExpression sortedElements # args))"
      by (auto simp: addAdapterMetadataEntry_def split: sum.splits)
    from mset_sortByEntryName[OF s(1)]
    have "mset (concat (map reachedE sortedElements))
          = mset (concat (map reachedE (es @ [newMetadataEntry E pk pr ck fk])))"
      by (rule mset_concat_map)
    then show ?thesis using s(2,3) i
      by (simp add: reachedInit_def reachedE_newMetadataEntry)
  qed
qed

lemma entry_reached_set:
  assumes "addAdapterMetadataEntry E pk pr ck fk (VariableDeclarator ident init)
           = Inr (VariableDeclarator ident' (Some x))"
  shows "set (reachedE x) = set (reachedInit init)"
  using entry_reached[OF assms] by (metis mset_eq_setD reachedInit_def option.simps(5))

lemma isMetadataFiles_simp [simp]:
  "isMetadataFiles (VariableDeclarator (IdentifierPattern name) init) \<longleftrightarrow> name = ''MetadataFiles''"
  "\<not> isMetadataFiles (VariableDeclarator (OtherPattern p) init)"
  by (simp_all add: isMetadataFiles_def)

lemma visit_edit_throws:
  assumes "(if name = ''MetadataFiles''
            then addAdapterMetadataEntry E pk pr ck fk (VariableDeclarator (IdentifierPattern name) init)
            else Inr (VariableDeclarator (IdentifierPattern name) init)) = Inl e"
  shows "visitVariableDeclarator E pk pr ck fk (VariableDeclarator (IdentifierPattern name) init) = Inl e"
  by (simp only: visitVariableDeclarator.simps assms sum.case)

lemma visit_edit_descends:
  assumes "(if name = ''MetadataFiles''
            then addAdapterMetadataEntry E pk pr ck fk (VariableDeclarator (IdentifierPattern name) init)
            else Inr (VariableDeclarator (IdentifierPattern name) init))
           = Inr (VariableDeclarator ident init')"
  shows "visitVariableDeclarator E pk pr ck fk (VariableDeclarator (IdentifierPattern name) init)
         = (case init' of
              None \<Rightarrow> Inr (VariableDeclarator ident None)
            | Some x \<Rightarrow>
                (case traverseExpr E pk pr ck fk x of
                   Inl e \<Rightarrow> Inl e
                 | Inr x' \<Rightarrow> Inr (VariableDeclarator ident (Some x'))))"
  by (simp only: visitVariableDeclarator.simps assms sum.case declarator.case)

text \<open>
  Where every \<open>MetadataFiles\<close> declarator that is reached has the pair already, the
  traversal returns the tree as it is.
\<close>

lemma traversal_registered:
  fixes E :: env
  shows "(\<forall>dc\<in>set (reachedE e). isMetadataFiles dc
            \<longrightarrow> registers (pk @ pascalCase E pr @ ck @ pascalCase E fk) (initOf dc))
         \<Longrightarrow> traverseExpr E pk pr ck fk e = Inr e"
    and "(\<forall>dc\<in>set (reachedD d). isMetadataFiles dc
            \<longrightarrow> registers (pk @ pascalCase E pr @ ck @ pascalCase E fk) (initOf dc))
         \<Longrightarrow> visitVariableDeclarator E pk pr ck fk d = Inr d"
    and "(\<forall>dc\<in>set (reachedS s). isMetadataFiles dc
            \<longrightarrow> registers (pk @ pascalCase E pr @ ck @ pascalCase E fk) (initOf dc))
         \<Longrightarrow> traverseStmt E pk pr ck fk s = Inr s"
proof (induction E pk pr ck fk e and E pk pr ck fk d and E pk pr ck fk s
       rule: traverseExpr_visitVariableDeclarator_traverseStmt.induct)
  case (4 E protocolKey productId' chainKey fileKey' callee arguments)
  have c: "traverseExpr E protocolKey productId' chainKey fileKey' callee = Inr callee"
    using 4(1,3) by simp
  have "mapE (traverseExpr E protocolKey productId' chainKey fileKey') arguments = Inr arguments"
    by (rule mapE_id, rule 4(2)[OF c]) (use 4(3) in auto)
  with c show ?case by simp
next
  case (7 E protocolKey productId' chainKey fileKey' callee arguments)
  have c: "traverseExpr E protocolKey productId' chainKey fileKey' callee = Inr callee"
    using 7(1,3) by simp
  have "mapE (traverseExpr E protocolKey productId' chainKey fileKey') arguments = Inr arguments"
    by (rule mapE_id, rule 7(2)[OF c]) (use 7(3) in auto)
  with c show ?case by simp
next
  case (5 E protocolKey productId' chainKey fileKey' properties)
  have "mapE (\<lambda>(k, v).
                   case traverseExpr E protocolKey productId' chainKey fileKey' k of
                     Inl e \<Rightarrow> Inl e
                   | Inr k' \<Rightarrow>
                       (case traverseExpr E protocolKey productId' chainKey fileKey' v of
                          Inl e \<Rightarrow> Inl e
                        | Inr v' \<Rightarrow> Inr (k', v'))) properties = Inr properties"
  proof (rule mapE_id)
    fix x assume x: "x \<in> set properties"
    obtain k v where kv: "x = (k, v)" by (cases x)
    have "traverseExpr E protocolKey productId' chainKey fileKey' k = Inr k"
      using 5(1)[OF x kv[symmetric]] 5(3) x kv by fastforce
    moreover have "traverseExpr E protocolKey productId' chainKey fileKey' v = Inr v"
      using 5(2)[OF x kv[symmetric]] 5(3) x kv calculation by fastforce
    ultimately show "(case x of (k, v) \<Rightarrow>
                   case traverseExpr E protocolKey productId' chainKey fileKey' k of
                     Inl e \<Rightarrow> Inl e
                   | Inr k' \<Rightarrow>
                       (case traverseExpr E protocolKey productId' chainKey fileKey' v of
                          Inl e \<Rightarrow> Inl e
                        | Inr v' \<Rightarrow> Inr (k', v'))) = Inr x"
      by (simp add: kv)
  qed
  then show ?case by simp
next
  case (11 E protocolKey productId' chainKey fileKey' name init)
  let ?d = "VariableDeclarator (IdentifierPattern name) init"
  have e: "(if name = ''MetadataFiles''
        then addAdapterMetadataEntry E protocolKey productId' chainKey fileKey' ?d
        else Inr ?d) = Inr ?d"
    using 11(2) by (auto simp: entry_registered)
  show ?case
  proof (cases init)
    case None
    with visit_edit_descends[OF e] show ?thesis by simp
  next
    case (Some x)
    have "traverseExpr E protocolKey productId' chainKey fileKey' x = Inr x"
      using 11(1)[OF e refl Some] 11(2) Some by simp
    with visit_edit_descends[OF e] Some show ?thesis by simp
  qed
qed (auto simp: mapE_id)

lemma firstError_none: "(\<forall>x\<in>set xs. \<not> isl (f x)) \<Longrightarrow> firstError (map f xs) = None"
proof (induction xs)
  case Nil then show ?case by simp
next
  case (Cons a xs)
  then show ?case by (cases "f a") auto
qed

lemma filter_key_sort:
  "filter (\<lambda>x. f k = f x) (sort_key f xs) = filter (\<lambda>x. f k = f x) xs"
  using sort_key_stable[of f "f k" xs] by (simp add: eq_commute)

lemma sort_key_commute:
  fixes f :: "'a \<Rightarrow> 'k::linorder"
  assumes "f a \<noteq> f b"
  shows "sort_key f (sort_key f (xs @ [a]) @ [b]) = sort_key f (sort_key f (xs @ [b]) @ [a])"
proof (rule properties_for_sort_key)
  show "mset (sort_key f (sort_key f (xs @ [b]) @ [a])) = mset (sort_key f (xs @ [a]) @ [b])"
    by simp
next
  fix k
  show "filter (\<lambda>x. f k = f x) (sort_key f (sort_key f (xs @ [b]) @ [a]))
        = filter (\<lambda>x. f k = f x) (sort_key f (xs @ [a]) @ [b])"
    using assms by (auto simp: filter_key_sort)
next
  show "sorted (map f (sort_key f (sort_key f (xs @ [b]) @ [a])))"
    by (rule sorted_sort_key)
qed

lemma insort_key_map:
  "(\<And>y. f (g y) = f y) \<Longrightarrow> insort_key f (g x) (map g ys) = map g (insort_key f x ys)"
  by (induction ys) auto

lemma sort_key_map:
  "(\<And>y. f (g y) = f y) \<Longrightarrow> sort_key f (map g xs) = map g (sort_key f xs)"
  by (induction xs) (auto simp: insort_key_map)

lemma pairEntry_cases: "pairEntry x \<longleftrightarrow> (\<exists>k n. x = ArrayExpression [k, Identifier n])"
  by (cases x rule: pairEntry.cases) auto

lemma pairEntry_name: "pairEntry x \<Longrightarrow> \<not> isl (entryName x)"
  by (auto simp: pairEntry_cases entryName_def)

lemma sortByEntryName_pairs:
  "list_all pairEntry es \<Longrightarrow> sortByEntryName es = Inr (sort_key entryKey es)"
proof -
  assume "list_all pairEntry es"
  then have "firstError (map entryName es) = None"
    by (intro firstError_none) (simp add: list_all_iff pairEntry_name)
  then show ?thesis
    by (simp add: sortByEntryName_def sortEntries_def entryKey_def[abs_def])
qed

definition editEntries :: "string \<Rightarrow> expr \<Rightarrow> expr list \<Rightarrow> expr list" where
  "editEntries name new es =
     (if list_ex (entryMatches name) es then es else sort_key entryKey (es @ [new]))"

lemma newMetadataEntry_pair: "pairEntry (newMetadataEntry E pk pr ck fk)"
  by (simp add: newMetadataEntry_def)

lemma newMetadataEntry_key:
  "entryKey (newMetadataEntry E pk pr ck fk) = pk @ pascalCase E pr @ ck @ pascalCase E fk"
  by (simp add: newMetadataEntry_def entryKey_def entryName_def)

lemma newMetadataEntry_matches:
  "entryMatches name (newMetadataEntry E pk pr ck fk) \<longleftrightarrow> pk @ pascalCase E pr @ ck @ pascalCase E fk = name"
  by (simp add: newMetadataEntry_def entryMatches_def)

lemma entry_pairs:
  assumes "list_all pairEntry es"
  shows "addAdapterMetadataEntry E pk pr ck fk
           (VariableDeclarator ident (Some (NewExpression c (ArrayExpression es # args))))
         = Inr (VariableDeclarator ident (Some (NewExpression c (ArrayExpression
                  (editEntries (pk @ pascalCase E pr @ ck @ pascalCase E fk)
                     (newMetadataEntry E pk pr ck fk) es) # args))))"
proof (cases "list_ex (entryMatches (pk @ pascalCase E pr @ ck @ pascalCase E fk)) es")
  case True
  then obtain z where "find (entryMatches (pk @ pascalCase E pr @ ck @ pascalCase E fk)) es = Some z"
    by (cases "find (entryMatches (pk @ pascalCase E pr @ ck @ pascalCase E fk)) es")
       (auto simp: find_None_iff list_ex_iff)
  with True show ?thesis by (simp add: addAdapterMetadataEntry_def editEntries_def)
next
  case False
  then have "find (entryMatches (pk @ pascalCase E pr @ ck @ pascalCase E fk)) es = None"
    by (simp add: find_None_iff list_ex_iff)
  moreover have "list_all pairEntry (es @ [newMetadataEntry E pk pr ck fk])"
    using assms by (simp add: newMetadataEntry_pair)
  ultimately show ?thesis using False
    by (simp add: addAdapterMetadataEntry_def editEntries_def sortByEntryName_pairs)
qed

lemma editEntries_pairs:
  "list_all pairEntry es \<Longrightarrow> pairEntry new \<Longrightarrow> list_all pairEntry (editEntries name new es)"
  by (simp add: editEntries_def list_all_iff)

lemma editEntries_commute:
  assumes "entryKey a = na" "entryKey b = nb" "entryMatches na a" "entryMatches nb b"
      and "\<not> entryMatches nb a" "\<not> entryMatches na b" "na \<noteq> nb"
  shows "editEntries nb b (editEntries na a es) = editEntries na a (editEntries nb b es)"
  using assms sort_key_commute[of entryKey a b es]
  by (auto simp: editEntries_def list_ex_iff)

lemma mapOfPairs_cases:
  "mapOfPairs i \<longleftrightarrow> (\<exists>c es args. i = Some (NewExpression c (ArrayExpression es # args)) \<and> list_all pairEntry es)"
  by (cases i rule: mapOfPairs.cases) auto

text \<open>
  The registration as a function on trees: the entry edit of an array, where there is
  one, at every \<open>MetadataFiles\<close> declarator that the traversal reaches. On a tree whose
  \<open>MetadataFiles\<close> declarators are new maps from arrays of pairs the traversal computes
  this function (\<open>traversal_edited\<close> below).
\<close>

definition editInit :: "string \<Rightarrow> expr \<Rightarrow> expr option \<Rightarrow> expr option" where
  "editInit name new init =
     (case init of
        Some (NewExpression callee (ArrayExpression elements # args)) \<Rightarrow>
          Some (NewExpression callee (ArrayExpression (editEntries name new elements) # args))
      | _ \<Rightarrow> init)"

fun editedE :: "string \<Rightarrow> expr \<Rightarrow> expr \<Rightarrow> expr"
and editedD :: "string \<Rightarrow> expr \<Rightarrow> declarator \<Rightarrow> declarator"
and editedS :: "string \<Rightarrow> expr \<Rightarrow> stmt \<Rightarrow> stmt" where
  "editedE name new (Identifier n) = Identifier n"
| "editedE name new (StringLiteral v) = StringLiteral v"
| "editedE name new (MemberExpression object property) =
     MemberExpression (editedE name new object) (editedE name new property)"
| "editedE name new (CallExpression callee arguments) =
     CallExpression (editedE name new callee) (map (editedE name new) arguments)"
| "editedE name new (ObjectExpression properties) =
     ObjectExpression (map (\<lambda>(k, v). (editedE name new k, editedE name new v)) properties)"
| "editedE name new (ArrayExpression elements) = ArrayExpression (map (editedE name new) elements)"
| "editedE name new (NewExpression callee arguments) =
     NewExpression (editedE name new callee) (map (editedE name new) arguments)"
| "editedE name new (FunctionExpression kind body) = FunctionExpression kind (map (editedS name new) body)"
| "editedE name new (OtherExpression kind children) = OtherExpression kind (map (editedE name new) children)"
| "editedD name new (VariableDeclarator (OtherPattern p) init) = VariableDeclarator (OtherPattern p) init"
| "editedD name new (VariableDeclarator (IdentifierPattern x) init) =
     VariableDeclarator (IdentifierPattern x)
       (if x = ''MetadataFiles'' then editInit name new (map_option (editedE name new) init)
        else map_option (editedE name new) init)"
| "editedS name new (ImportDeclaration specifiers source) = ImportDeclaration specifiers source"
| "editedS name new (VariableDeclaration declarations) =
     VariableDeclaration (map (editedD name new) declarations)"
| "editedS name new (ExpressionStatement expression) = ExpressionStatement (editedE name new expression)"
| "editedS name new (OtherStatement kind body) = OtherStatement kind (map (editedS name new) body)"

lemma editedE_identifier: "editedE name new x = Identifier n \<longleftrightarrow> x = Identifier n"
  by (cases x) auto

lemma entryName_edited: "entryName (editedE name new x) = entryName x"
proof (cases x)
  case (ArrayExpression es)
  show ?thesis
  proof (cases es)
    case Nil
    with ArrayExpression show ?thesis by (simp add: entryName_def)
  next
    case (Cons a as)
    note c1 = this
    show ?thesis
    proof (cases as)
      case Nil
      with ArrayExpression c1 show ?thesis by (simp add: entryName_def)
    next
      case (Cons b bs)
      with ArrayExpression c1 show ?thesis
        by (cases b) (simp_all add: entryName_def)
    qed
  qed
qed (simp_all add: entryName_def)

lemma entryKey_edited: "entryKey (editedE name new x) = entryKey x"
  by (simp add: entryKey_def entryName_edited)

lemma entryMatches_edited: "entryMatches m (editedE name new x) = entryMatches m x"
proof (cases x)
  case (ArrayExpression es)
  show ?thesis
  proof (cases es)
    case Nil
    with ArrayExpression show ?thesis by (simp add: entryMatches_def)
  next
    case (Cons a as)
    note c1 = this
    show ?thesis
    proof (cases as)
      case Nil
      with ArrayExpression c1 show ?thesis by (simp add: entryMatches_def)
    next
      case (Cons b bs)
      with ArrayExpression c1 show ?thesis
        by (cases b; cases bs) (simp_all add: entryMatches_def)
    qed
  qed
qed (simp_all add: entryMatches_def)

lemma pairEntry_matches: "pairEntry x \<longleftrightarrow> (\<exists>m. entryMatches m x)"
  by (cases x rule: pairEntry.cases) (auto simp: entryMatches_def split: expr.splits list.splits)

lemma pairEntry_edited: "pairEntry (editedE name new x) = pairEntry x"
  by (simp add: pairEntry_matches entryMatches_edited)

lemma editEntries_map:
  assumes "\<And>x. entryMatches name (g x) = entryMatches name x"
      and "\<And>x. entryKey (g x) = entryKey x"
      and "g new = new"
  shows "map g (editEntries name new es) = editEntries name new (map g es)"
proof -
  have "list_ex (entryMatches name) (map g es) = list_ex (entryMatches name) es"
    by (simp add: list_ex_iff assms(1))
  moreover have "sort_key entryKey (map g (es @ [new])) = map g (sort_key entryKey (es @ [new]))"
    by (rule sort_key_map) (rule assms(2))
  ultimately show ?thesis by (simp add: editEntries_def assms(3))
qed

lemma edited_newMetadataEntry:
  "editedE name new (newMetadataEntry E pk pr ck fk) = newMetadataEntry E pk pr ck fk"
  by (simp add: newMetadataEntry_def)

lemma editInit_other: "\<not> newMapOfArray init \<Longrightarrow> editInit name new init = init"
  by (auto simp: editInit_def newMapOfArray_def split: option.splits expr.splits list.splits)

lemma newMapOfArray_edited: "newMapOfArray (map_option (editedE m w) init) = newMapOfArray init"
proof (cases init)
  case None
  then show ?thesis by simp
next
  case (Some x)
  show ?thesis
  proof (cases x)
    case (NewExpression c as)
    show ?thesis
    proof (cases as)
      case Nil
      with Some NewExpression show ?thesis by (simp add: newMapOfArray_def)
    next
      case (Cons a list)
      with Some NewExpression show ?thesis by (cases a) (simp_all add: newMapOfArray_def)
    qed
  qed (simp_all add: Some newMapOfArray_def)
qed

lemma editInit_edited:
  assumes "editedE m w new = new"
  shows "map_option (editedE m w) (editInit name new init)
         = editInit name new (map_option (editedE m w) init)"
proof (cases "newMapOfArray init")
  case True
  then obtain c es args where "init = Some (NewExpression c (ArrayExpression es # args))"
    by (auto simp: newMapOfArray_cases)
  then show ?thesis
    by (simp add: editInit_def editEntries_map entryMatches_edited entryKey_edited assms)
next
  case False
  then show ?thesis by (simp add: editInit_other newMapOfArray_edited)
qed

lemma edited_commute:
  fixes E :: env
  assumes "wa = newMetadataEntry E pka pra cka fka"
      and "wb = newMetadataEntry E pkb prb ckb fkb"
      and "na = pka @ pascalCase E pra @ cka @ pascalCase E fka"
      and "nb = pkb @ pascalCase E prb @ ckb @ pascalCase E fkb"
      and "na \<noteq> nb"
  shows "editedE nb wb (editedE na wa e) = editedE na wa (editedE nb wb e)"
    and "editedD nb wb (editedD na wa d) = editedD na wa (editedD nb wb d)"
    and "editedS nb wb (editedS na wa s) = editedS na wa (editedS nb wb s)"
proof (induction e and d and s)
  case (VariableDeclarator x1 x2)
  have i: "map_option (editedE nb wb) (map_option (editedE na wa) x2)
           = map_option (editedE na wa) (map_option (editedE nb wb) x2)"
    using VariableDeclarator by (cases x2) auto
  have c: "editInit nb wb (editInit na wa j) = editInit na wa (editInit nb wb j)" for j
  proof (cases "newMapOfArray j")
    case True
    then obtain c es args where "j = Some (NewExpression c (ArrayExpression es # args))"
      by (auto simp: newMapOfArray_cases)
    moreover have "editEntries nb wb (editEntries na wa es) = editEntries na wa (editEntries nb wb es)"
      using assms
      by (intro editEntries_commute)
         (auto simp: newMetadataEntry_key newMetadataEntry_matches)
    ultimately show ?thesis by (simp add: editInit_def)
  next
    case False
    then show ?thesis by (simp add: editInit_other)
  qed
  have wa: "editedE nb wb wa = wa" and wb: "editedE na wa wb = wb"
    using assms(1,2) by (simp_all add: edited_newMetadataEntry)
  show ?case
  proof (cases x1)
    case (IdentifierPattern x)
    then show ?thesis
      using i c by (simp add: editInit_edited[OF wa] editInit_edited[OF wb])
  next
    case (OtherPattern p)
    then show ?thesis by simp
  qed
qed auto

definition wellFormed :: "declarator \<Rightarrow> bool" where
  "wellFormed dc \<longleftrightarrow> (isMetadataFiles dc \<longrightarrow> mapOfPairs (initOf dc))"

lemma mset_concat_image:
  "(\<And>x. x \<in> set xs \<Longrightarrow> mset (r' x) = image_mset g (mset (r x))) \<Longrightarrow>
   mset (concat (map r' xs)) = image_mset g (mset (concat (map r xs)))"
  by (induction xs) auto

lemma mset_editEntries:
  "reachedE new = [] \<Longrightarrow>
   mset (concat (map reachedE (editEntries name new es))) = mset (concat (map reachedE es))"
proof -
  assume n: "reachedE new = []"
  have "mset (concat (map reachedE (sort_key entryKey (es @ [new]))))
        = mset (concat (map reachedE (es @ [new])))"
    by (rule mset_concat_map) simp
  with n show ?thesis by (simp add: editEntries_def)
qed

lemma reachedInit_editInit:
  "reachedE new = [] \<Longrightarrow> mset (reachedInit (editInit name new init)) = mset (reachedInit init)"
proof (cases "newMapOfArray init")
  case True
  assume n: "reachedE new = []"
  from True obtain c es args where "init = Some (NewExpression c (ArrayExpression es # args))"
    by (auto simp: newMapOfArray_cases)
  then show ?thesis using mset_editEntries[OF n, of name es]
    by (simp add: editInit_def reachedInit_def)
next
  case False
  then show ?thesis by (simp add: editInit_other)
qed

lemma reached_edited:
  assumes "reachedE new = []"
  shows "mset (reachedE (editedE name new e)) = image_mset (editedD name new) (mset (reachedE e))"
    and "mset (reachedD (editedD name new d)) = image_mset (editedD name new) (mset (reachedD d))"
    and "mset (reachedS (editedS name new s)) = image_mset (editedD name new) (mset (reachedS s))"
proof (induction e and d and s)
  case (VariableDeclarator x1 x2)
  have i: "mset (reachedInit (map_option (editedE name new) x2))
           = image_mset (editedD name new) (mset (reachedInit x2))"
    using VariableDeclarator by (cases x2) (auto simp: reachedInit_def)
  show ?case
  proof (cases x1)
    case (IdentifierPattern x)
    then show ?thesis
      using i reachedInit_editInit[OF assms, of name "map_option (editedE name new) x2"]
      by (simp add: reachedInit_def[symmetric])
  next
    case (OtherPattern p)
    then show ?thesis by simp
  qed
next
  case (ObjectExpression ps)
  have "mset (concat (map (\<lambda>(k, v). reachedE k @ reachedE v)
                (map (\<lambda>(k, v). (editedE name new k, editedE name new v)) ps)))
        = image_mset (editedD name new) (mset (concat (map (\<lambda>(k, v). reachedE k @ reachedE v) ps)))"
    unfolding map_map
  proof (rule mset_concat_image)
    fix p assume p: "p \<in> set ps"
    obtain k v where kv: "p = (k, v)" by (cases p)
    from ObjectExpression(1)[of p k] ObjectExpression(2)[of p v] p kv
    show "mset (((\<lambda>(k, v). reachedE k @ reachedE v) \<circ> (\<lambda>(k, v). (editedE name new k, editedE name new v))) p)
          = image_mset (editedD name new) (mset (case p of (k, v) \<Rightarrow> reachedE k @ reachedE v))"
      by simp
  qed
  then show ?case by simp
qed (simp_all add: mset_concat_image[where r' = "\<lambda>x. reachedE (editedE name new x)"]
       mset_concat_image[where r' = "\<lambda>x. reachedS (editedS name new x)"]
       mset_concat_image[where r' = "\<lambda>x. reachedD (editedD name new x)"] o_def)

lemma mapE_succeeds: "mapE f xs = Inr ys \<Longrightarrow> \<forall>x\<in>set xs. \<not> isl (f x)"
  by (induction xs arbitrary: ys) (auto split: sum.splits)

lemma wellFormed_registry:
  assumes "wellFormed (VariableDeclarator (IdentifierPattern ''MetadataFiles'') init)"
  obtains c es args where "init = Some (NewExpression c (ArrayExpression es # args))"
    "list_all pairEntry es"
  using assms by (auto simp: wellFormed_def mapOfPairs_cases)

lemma traversal_edited:
  fixes E :: env
  shows "(\<forall>dc\<in>set (reachedE e). wellFormed dc)
         \<Longrightarrow> traverseExpr E pk pr ck fk e
             = Inr (editedE (pk @ pascalCase E pr @ ck @ pascalCase E fk)
                      (newMetadataEntry E pk pr ck fk) e)"
    and "(\<forall>dc\<in>set (reachedD d). wellFormed dc)
         \<Longrightarrow> visitVariableDeclarator E pk pr ck fk d
             = Inr (editedD (pk @ pascalCase E pr @ ck @ pascalCase E fk)
                      (newMetadataEntry E pk pr ck fk) d)"
    and "(\<forall>dc\<in>set (reachedS s). wellFormed dc)
         \<Longrightarrow> traverseStmt E pk pr ck fk s
             = Inr (editedS (pk @ pascalCase E pr @ ck @ pascalCase E fk)
                      (newMetadataEntry E pk pr ck fk) s)"
proof (induction E pk pr ck fk e and E pk pr ck fk d and E pk pr ck fk s
       rule: traverseExpr_visitVariableDeclarator_traverseStmt.induct)
  case (4 E protocolKey productId' chainKey fileKey' callee arguments)
  let ?g = "editedE (protocolKey @ pascalCase E productId' @ chainKey @ pascalCase E fileKey')
              (newMetadataEntry E protocolKey productId' chainKey fileKey')"
  have c: "traverseExpr E protocolKey productId' chainKey fileKey' callee = Inr (?g callee)"
    using 4(1,3) by simp
  have "mapE (traverseExpr E protocolKey productId' chainKey fileKey') arguments
        = Inr (map ?g arguments)"
    by (rule mapE_map, rule 4(2)[OF c]) (use 4(3) in auto)
  with c show ?case by simp
next
  case (7 E protocolKey productId' chainKey fileKey' callee arguments)
  let ?g = "editedE (protocolKey @ pascalCase E productId' @ chainKey @ pascalCase E fileKey')
              (newMetadataEntry E protocolKey productId' chainKey fileKey')"
  have c: "traverseExpr E protocolKey productId' chainKey fileKey' callee = Inr (?g callee)"
    using 7(1,3) by simp
  have "mapE (traverseExpr E protocolKey productId' chainKey fileKey') arguments
        = Inr (map ?g arguments)"
    by (rule mapE_map, rule 7(2)[OF c]) (use 7(3) in auto)
  with c show ?case by simp
next
  case (5 E protocolKey productId' chainKey fileKey' properties)
  let ?g = "editedE (protocolKey @ pascalCase E productId' @ chainKey @ pascalCase E fileKey')
              (newMetadataEntry E protocolKey productId' chainKey fileKey')"
  have "mapE (\<lambda>(k, v).
                   case traverseExpr E protocolKey productId' chainKey fileKey' k of
                     Inl e \<Rightarrow> Inl e
                   | Inr k' \<Rightarrow>
                       (case traverseExpr E protocolKey productId' chainKey fileKey' v of
                          Inl e \<Rightarrow> Inl e
                        | Inr v' \<Rightarrow> Inr (k', v'))) properties
        = Inr (map (\<lambda>(k, v). (?g k, ?g v)) properties)"
  proof (rule mapE_map)
    fix x assume x: "x \<in> set properties"
    obtain k v where kv: "x = (k, v)" by (cases x)
    have k: "traverseExpr E protocolKey productId' chainKey fileKey' k = Inr (?g k)"
      using 5(1)[OF x kv[symmetric]] 5(3) x kv by fastforce
    moreover have "traverseExpr E protocolKey productId' chainKey fileKey' v = Inr (?g v)"
      using 5(2)[OF x kv[symmetric] k] 5(3) x kv by fastforce
    ultimately show "(case x of (k, v) \<Rightarrow>
                   case traverseExpr E protocolKey productId' chainKey fileKey' k of
                     Inl e \<Rightarrow> Inl e
                   | Inr k' \<Rightarrow>
                       (case traverseExpr E protocolKey productId' chainKey fileKey' v of
                          Inl e \<Rightarrow> Inl e
                        | Inr v' \<Rightarrow> Inr (k', v'))) = Inr (case x of (k, v) \<Rightarrow> (?g k, ?g v))"
      by (simp add: kv)
  qed
  then show ?case by simp
next
  case (11 E protocolKey productId' chainKey fileKey' name init)
  let ?n = "protocolKey @ pascalCase E productId' @ chainKey @ pascalCase E fileKey'"
  let ?w = "newMetadataEntry E protocolKey productId' chainKey fileKey'"
  let ?d = "VariableDeclarator (IdentifierPattern name) init"
  let ?edit = "if name = ''MetadataFiles''
        then addAdapterMetadataEntry E protocolKey productId' chainKey fileKey' ?d
        else Inr ?d"
  show ?case
  proof (cases "name = ''MetadataFiles''")
    case False
    then have e: "?edit = Inr ?d" by simp
    show ?thesis
    proof (cases init)
      case None
      with visit_edit_descends[OF e] False show ?thesis by simp
    next
      case (Some x)
      have "traverseExpr E protocolKey productId' chainKey fileKey' x = Inr (editedE ?n ?w x)"
        using 11(1)[OF e refl Some] 11(2) Some by simp
      with visit_edit_descends[OF e] Some False show ?thesis by simp
    qed
  next
    case True
    with 11(2) have "wellFormed (VariableDeclarator (IdentifierPattern ''MetadataFiles'') init)"
      by simp
    then obtain c es args where i: "init = Some (NewExpression c (ArrayExpression es # args))"
      and p: "list_all pairEntry es" by (rule wellFormed_registry)
    let ?x = "NewExpression c (ArrayExpression (editEntries ?n ?w es) # args)"
    have e: "?edit = Inr (VariableDeclarator (IdentifierPattern name) (Some ?x))"
      using True i entry_pairs[OF p] by simp
    have "set (reachedE ?x) = set (reachedInit init)"
      using e True by (intro entry_reached_set[of E protocolKey productId' chainKey fileKey'
            "IdentifierPattern name" init "IdentifierPattern name"]) simp
    then have "\<forall>dc\<in>set (reachedE ?x). wellFormed dc"
      using 11(2) by (simp add: reachedInit_def[symmetric])
    then have "traverseExpr E protocolKey productId' chainKey fileKey' ?x = Inr (editedE ?n ?w ?x)"
      by (rule 11(1)[OF e refl refl])
    with visit_edit_descends[OF e] True i show ?thesis
      by (simp add: editInit_def editEntries_map entryMatches_edited entryKey_edited
          edited_newMetadataEntry)
  qed
qed (auto simp: mapE_map)

lemma traversal_throws:
  fixes E :: env
  assumes "isMetadataFiles dc" and "\<not> newMapOfArray (initOf dc)"
  shows "dc \<in> set (reachedE e) \<Longrightarrow> isl (traverseExpr E pk pr ck fk e)"
    and "dc \<in> set (reachedD d) \<Longrightarrow> isl (visitVariableDeclarator E pk pr ck fk d)"
    and "dc \<in> set (reachedS s) \<Longrightarrow> isl (traverseStmt E pk pr ck fk s)"
proof (induction E pk pr ck fk e and E pk pr ck fk d and E pk pr ck fk s
       rule: traverseExpr_visitVariableDeclarator_traverseStmt.induct)
  case (4 E protocolKey productId' chainKey fileKey' callee arguments)
  show ?case
  proof (cases "traverseExpr E protocolKey productId' chainKey fileKey' callee")
    case (Inl e)
    then show ?thesis by simp
  next
    case (Inr b)
    with 4(1,3) obtain x where x: "x \<in> set arguments" "dc \<in> set (reachedE x)" by auto
    from x(1) 4(2)[OF Inr x] have
      "isl (mapE (traverseExpr E protocolKey productId' chainKey fileKey') arguments)"
      by (rule mapE_throws)
    with Inr show ?thesis by (auto split: sum.splits)
  qed
next
  case (7 E protocolKey productId' chainKey fileKey' callee arguments)
  show ?case
  proof (cases "traverseExpr E protocolKey productId' chainKey fileKey' callee")
    case (Inl e)
    then show ?thesis by simp
  next
    case (Inr b)
    with 7(1,3) obtain x where x: "x \<in> set arguments" "dc \<in> set (reachedE x)" by auto
    from x(1) 7(2)[OF Inr x] have
      "isl (mapE (traverseExpr E protocolKey productId' chainKey fileKey') arguments)"
      by (rule mapE_throws)
    with Inr show ?thesis by (auto split: sum.splits)
  qed
next
  case (5 E protocolKey productId' chainKey fileKey' properties)
  from 5(3) obtain k v where x: "(k, v) \<in> set properties"
    and dc: "dc \<in> set (reachedE k) \<or> dc \<in> set (reachedE v)" by auto
  have "isl (case (k, v) of (k, v) \<Rightarrow>
                   case traverseExpr E protocolKey productId' chainKey fileKey' k of
                     Inl e \<Rightarrow> Inl e
                   | Inr k' \<Rightarrow>
                       (case traverseExpr E protocolKey productId' chainKey fileKey' v of
                          Inl e \<Rightarrow> Inl e
                        | Inr v' \<Rightarrow> Inr (k', v')))"
    using 5(1)[OF x refl] 5(2)[OF x refl] dc by (auto split: sum.splits)
  with x have "isl (mapE (\<lambda>(k, v).
                   case traverseExpr E protocolKey productId' chainKey fileKey' k of
                     Inl e \<Rightarrow> Inl e
                   | Inr k' \<Rightarrow>
                       (case traverseExpr E protocolKey productId' chainKey fileKey' v of
                          Inl e \<Rightarrow> Inl e
                        | Inr v' \<Rightarrow> Inr (k', v'))) properties)"
    by (rule mapE_throws)
  then show ?case by (auto split: sum.splits)
next
  case (11 E protocolKey productId' chainKey fileKey' name init)
  let ?d = "VariableDeclarator (IdentifierPattern name) init"
  let ?edit = "if name = ''MetadataFiles''
        then addAdapterMetadataEntry E protocolKey productId' chainKey fileKey' ?d
        else Inr ?d"
  show ?case
  proof (cases ?edit)
    case (Inl e)
    from visit_edit_throws[OF this] show ?thesis by simp
  next
    case (Inr d')
    obtain ident init' where d': "d' = VariableDeclarator ident init'" by (cases d')
    note e = Inr[unfolded d']
    have r: "set (reachedInit init') = set (reachedInit init)"
    proof (cases "name = ''MetadataFiles''")
      case True
      with e entry_reached[of E protocolKey productId' chainKey fileKey' "IdentifierPattern name"
          init ident init'] show ?thesis by (auto dest: mset_eq_setD)
    next
      case False
      with e show ?thesis by simp
    qed
    have "dc \<noteq> ?d"
    proof
      assume "dc = ?d"
      with assms have "name = ''MetadataFiles''" "\<not> newMapOfArray (initOf ?d)" by simp_all
      with entry_illTyped[of ?d E protocolKey productId' chainKey fileKey'] e show False by simp
    qed
    with 11(2) r have "dc \<in> set (reachedInit init')" by (simp add: reachedInit_def[symmetric])
    then obtain x where x: "init' = Some x" "dc \<in> set (reachedE x)"
      by (cases init') (auto simp: reachedInit_def)
    from 11(1)[OF e refl x(1) x(2)] visit_edit_descends[OF e] x(1) show ?thesis
      by (auto split: sum.splits)
  qed
qed (auto split: sum.splits dest!: mapE_succeeds)

lemma traversal_error:
  fixes E :: env
  shows "traverseExpr E pk pr ck fk e = Inl err \<Longrightarrow>
         (\<forall>dc\<in>set (reachedE e). \<not> newMapOfArray (initOf dc) \<or> wellFormed dc)
         \<Longrightarrow> err = IncorrectlyTypedMetadataFiles"
    and "visitVariableDeclarator E pk pr ck fk d = Inl err \<Longrightarrow>
         (\<forall>dc\<in>set (reachedD d). \<not> newMapOfArray (initOf dc) \<or> wellFormed dc)
         \<Longrightarrow> err = IncorrectlyTypedMetadataFiles"
    and "traverseStmt E pk pr ck fk s = Inl err \<Longrightarrow>
         (\<forall>dc\<in>set (reachedS s). \<not> newMapOfArray (initOf dc) \<or> wellFormed dc)
         \<Longrightarrow> err = IncorrectlyTypedMetadataFiles"
proof (induction E pk pr ck fk e and E pk pr ck fk d and E pk pr ck fk s
       rule: traverseExpr_visitVariableDeclarator_traverseStmt.induct)
  case (4 E protocolKey productId' chainKey fileKey' callee arguments)
  show ?case
  proof (cases "traverseExpr E protocolKey productId' chainKey fileKey' callee")
    case (Inl e)
    with 4(1,3,4) show ?thesis by simp
  next
    case (Inr b)
    with 4(3) have "mapE (traverseExpr E protocolKey productId' chainKey fileKey') arguments = Inl err"
      by (auto split: sum.splits)
    from mapE_error[OF this] obtain x where x: "x \<in> set arguments"
      "traverseExpr E protocolKey productId' chainKey fileKey' x = Inl err" by auto
    from x(1) 4(4) have "\<forall>dc\<in>set (reachedE x). \<not> newMapOfArray (initOf dc) \<or> wellFormed dc"
      by auto
    from 4(2)[OF Inr x this] show ?thesis .
  qed
next
  case (7 E protocolKey productId' chainKey fileKey' callee arguments)
  show ?case
  proof (cases "traverseExpr E protocolKey productId' chainKey fileKey' callee")
    case (Inl e)
    with 7(1,3,4) show ?thesis by simp
  next
    case (Inr b)
    with 7(3) have "mapE (traverseExpr E protocolKey productId' chainKey fileKey') arguments = Inl err"
      by (auto split: sum.splits)
    from mapE_error[OF this] obtain x where x: "x \<in> set arguments"
      "traverseExpr E protocolKey productId' chainKey fileKey' x = Inl err" by auto
    from x(1) 7(4) have "\<forall>dc\<in>set (reachedE x). \<not> newMapOfArray (initOf dc) \<or> wellFormed dc"
      by auto
    from 7(2)[OF Inr x this] show ?thesis .
  qed
next
  case (5 E protocolKey productId' chainKey fileKey' properties)
  from 5(3) have "mapE (\<lambda>(k, v).
                   case traverseExpr E protocolKey productId' chainKey fileKey' k of
                     Inl e \<Rightarrow> Inl e
                   | Inr k' \<Rightarrow>
                       (case traverseExpr E protocolKey productId' chainKey fileKey' v of
                          Inl e \<Rightarrow> Inl e
                        | Inr v' \<Rightarrow> Inr (k', v'))) properties = Inl err"
    by (auto split: sum.splits)
  from mapE_error[OF this] obtain k v where x: "(k, v) \<in> set properties"
    and kv: "(case traverseExpr E protocolKey productId' chainKey fileKey' k of
                     Inl e \<Rightarrow> Inl e
                   | Inr k' \<Rightarrow>
                       (case traverseExpr E protocolKey productId' chainKey fileKey' v of
                          Inl e \<Rightarrow> Inl e
                        | Inr v' \<Rightarrow> Inr (k', v'))) = Inl err"
    by auto
  from x 5(4) have h: "\<forall>dc\<in>set (reachedE k). \<not> newMapOfArray (initOf dc) \<or> wellFormed dc"
    "\<forall>dc\<in>set (reachedE v). \<not> newMapOfArray (initOf dc) \<or> wellFormed dc"
    by fastforce+
  from kv 5(1)[OF x refl _ h(1)] 5(2)[OF x refl _ _ h(2)] show ?case
    by (auto split: sum.splits)
next
  case (11 E protocolKey productId' chainKey fileKey' name init)
  let ?d = "VariableDeclarator (IdentifierPattern name) init"
  let ?edit = "if name = ''MetadataFiles''
        then addAdapterMetadataEntry E protocolKey productId' chainKey fileKey' ?d
        else Inr ?d"
  show ?case
  proof (cases ?edit)
    case (Inl e)
    then have mf: "name = ''MetadataFiles''" by (auto split: if_splits)
    from visit_edit_throws[OF Inl] 11(2) have ee: "e = err" by simp
    from 11(3) have "\<not> newMapOfArray init \<or> wellFormed ?d" by simp
    then show ?thesis
    proof
      assume "\<not> newMapOfArray init"
      with entry_illTyped[of ?d E protocolKey productId' chainKey fileKey'] Inl mf ee
      show ?thesis by simp
    next
      assume "wellFormed ?d"
      with mf obtain c es args where "init = Some (NewExpression c (ArrayExpression es # args))"
        "list_all pairEntry es" by (auto elim: wellFormed_registry)
      with entry_pairs[of es E protocolKey productId' chainKey fileKey' "IdentifierPattern name" c args]
        Inl mf show ?thesis by simp
    qed
  next
    case (Inr d')
    obtain ident init' where d': "d' = VariableDeclarator ident init'" by (cases d')
    note e = Inr[unfolded d']
    have r: "set (reachedInit init') = set (reachedInit init)"
    proof (cases "name = ''MetadataFiles''")
      case True
      with e entry_reached[of E protocolKey productId' chainKey fileKey' "IdentifierPattern name"
          init ident init'] show ?thesis by (auto dest: mset_eq_setD)
    next
      case False
      with e show ?thesis by simp
    qed
    from visit_edit_descends[OF e] 11(2) obtain x where x: "init' = Some x"
      "traverseExpr E protocolKey productId' chainKey fileKey' x = Inl err"
      by (cases init') (auto split: sum.splits)
    have "\<forall>dc\<in>set (reachedE x). \<not> newMapOfArray (initOf dc) \<or> wellFormed dc"
      using 11(3) r x(1) by (simp add: reachedInit_def[symmetric]) (simp add: reachedInit_def)
    from 11(1)[OF e refl x(1) x(2) this] show ?thesis .
  qed
qed (auto split: sum.splits dest!: mapE_error)

text \<open>The same facts for the statements of a program.\<close>

lemma program_traversal_edited:
  assumes "\<forall>dc\<in>set (programDeclarators body). wellFormed dc"
  shows "mapE (traverseStmt E pk pr ck fk) body
         = Inr (map (editedS (pk @ pascalCase E pr @ ck @ pascalCase E fk)
                       (newMetadataEntry E pk pr ck fk)) body)"
  by (rule mapE_map, rule traversal_edited(3)) (use assms in \<open>auto simp: programDeclarators_def\<close>)

lemma programDeclarators_edited:
  assumes "reachedE new = []"
  shows "mset (programDeclarators (map (editedS name new) body))
         = image_mset (editedD name new) (mset (programDeclarators body))"
proof -
  have "mset (concat (map (\<lambda>x. reachedS (editedS name new x)) body))
        = image_mset (editedD name new) (mset (concat (map reachedS body)))"
    by (rule mset_concat_image) (rule reached_edited(3)[OF assms])
  then show ?thesis by (simp add: programDeclarators_def o_def)
qed

lemma isImportDeclaration_edited: "isImportDeclaration (editedS name new s) = isImportDeclaration s"
  by (cases s) (simp_all add: isImportDeclaration_def)

lemma hasSpecifier_edited: "hasSpecifier (editedS name new s) = hasSpecifier s"
  by (cases s) (simp_all add: hasSpecifier_def)

lemma isMetadataFiles_edited: "isMetadataFiles (editedD name new dc) = isMetadataFiles dc"
proof (cases dc)
  case (VariableDeclarator x1 x2)
  then show ?thesis by (cases x1) (simp_all add: isMetadataFiles_def)
qed

text \<open>What the registration does to one \<open>MetadataFiles\<close> declarator.\<close>

lemma edited_registry:
  "editedD name new
     (VariableDeclarator (IdentifierPattern ''MetadataFiles'')
        (Some (NewExpression c (ArrayExpression es # args))))
   = VariableDeclarator (IdentifierPattern ''MetadataFiles'')
       (Some (NewExpression (editedE name new c)
          (ArrayExpression (editEntries name new (map (editedE name new) es))
             # map (editedE name new) args)))"
  by (simp add: editInit_def)

lemma registry_cases:
  assumes "isMetadataFiles dc" and "wellFormed dc"
  obtains c es args where
    "dc = VariableDeclarator (IdentifierPattern ''MetadataFiles'')
            (Some (NewExpression c (ArrayExpression es # args)))"
    "list_all pairEntry es"
proof -
  from assms(1) obtain init where d: "dc = VariableDeclarator (IdentifierPattern ''MetadataFiles'') init"
  proof (cases dc)
    case (VariableDeclarator x1 x2)
    with assms(1) that show ?thesis by (cases x1) (simp_all add: isMetadataFiles_def)
  qed
  with assms(2) obtain c es args where "init = Some (NewExpression c (ArrayExpression es # args))"
    "list_all pairEntry es" by (auto elim: wellFormed_registry)
  with d that show ?thesis by simp
qed

lemma registers_editEntries:
  assumes "\<And>m. entryMatches m new \<longleftrightarrow> m = name"
  shows "list_ex (entryMatches m) (editEntries name new es)
         \<longleftrightarrow> list_ex (entryMatches m) es \<or> m = name"
  using assms by (auto simp: editEntries_def list_ex_iff)

lemma edited_wellFormed:
  assumes "pairEntry new" and "wellFormed dc"
  shows "wellFormed (editedD name new dc)"
proof (cases "isMetadataFiles dc")
  case False
  then show ?thesis by (simp add: wellFormed_def isMetadataFiles_edited)
next
  case True
  from True assms(2) obtain c es args where
    d: "dc = VariableDeclarator (IdentifierPattern ''MetadataFiles'')
            (Some (NewExpression c (ArrayExpression es # args)))"
    and p: "list_all pairEntry es" by (rule registry_cases)
  have "list_all pairEntry (map (editedE name new) es)"
    using p by (simp add: list_all_iff pairEntry_edited)
  then have "list_all pairEntry (editEntries name new (map (editedE name new) es))"
    using assms(1) by (rule editEntries_pairs)
  then show ?thesis unfolding d edited_registry by (simp add: wellFormed_def)
qed

lemma edited_registers:
  assumes "\<And>m. entryMatches m new \<longleftrightarrow> m = name"
      and "isMetadataFiles dc" and "wellFormed dc"
  shows "registers m (initOf (editedD name new dc)) \<longleftrightarrow> registers m (initOf dc) \<or> m = name"
proof -
  from assms(2,3) obtain c es args where
    d: "dc = VariableDeclarator (IdentifierPattern ''MetadataFiles'')
            (Some (NewExpression c (ArrayExpression es # args)))"
    and p: "list_all pairEntry es" by (rule registry_cases)
  have "list_ex (entryMatches m) (map (editedE name new) es) = list_ex (entryMatches m) es"
    by (simp add: list_ex_iff entryMatches_edited)
  then show ?thesis unfolding d edited_registry
    by (simp add: registers_def registers_editEntries[OF assms(1)])
qed

lemma edited_sorted:
  assumes "isMetadataFiles dc" and "wellFormed dc"
      and "sortedByIdentifier (initOf dc) \<or> \<not> registers name (initOf dc)"
  shows "sortedByIdentifier (initOf (editedD name new dc))"
proof -
  from assms(1,2) obtain c es args where
    d: "dc = VariableDeclarator (IdentifierPattern ''MetadataFiles'')
            (Some (NewExpression c (ArrayExpression es # args)))"
    and p: "list_all pairEntry es" by (rule registry_cases)
  have m: "list_ex (entryMatches name) (map (editedE name new) es) = list_ex (entryMatches name) es"
    by (simp add: list_ex_iff entryMatches_edited)
  have k: "map entryKey (map (editedE name new) es) = map entryKey es"
    by (simp add: entryKey_edited)
  show ?thesis
  proof (cases "list_ex (entryMatches name) es")
    case True
    with assms(3) d have "sorted (map entryKey es)"
      by (simp add: sortedByIdentifier_def registers_def)
    with True m k show ?thesis unfolding d edited_registry
      by (simp add: sortedByIdentifier_def editEntries_def del: map_map)
  next
    case False
    with m show ?thesis unfolding d edited_registry
      by (simp add: sortedByIdentifier_def editEntries_def del: map_map)
  qed
qed

lemma expectedShape_wellFormed:
  "list_all mapOfPairs (metadataFilesInits body) \<longleftrightarrow> (\<forall>dc\<in>set (programDeclarators body). wellFormed dc)"
  by (auto simp: metadataFilesInits_def list_all_iff wellFormed_def)

text \<open>The name and the new pair of a key, and the tree after its registration.\<close>

definition newEntryOf :: "env \<Rightarrow> metadataKey \<Rightarrow> expr" where
  "newEntryOf E d =
     newMetadataEntry E (protocolKeyOf E (protocolId d)) (productId d) (chainKeyOf E (chainId d))
       (fileKey d)"

definition registered :: "env \<Rightarrow> metadataKey \<Rightarrow> stmt \<Rightarrow> stmt" where
  "registered E d = editedS (generatedIdentifier E d) (newEntryOf E d)"

definition registeredD :: "env \<Rightarrow> metadataKey \<Rightarrow> declarator \<Rightarrow> declarator" where
  "registeredD E d = editedD (generatedIdentifier E d) (newEntryOf E d)"

lemma newEntryOf_facts:
  "reachedE (newEntryOf E d) = []"
  "pairEntry (newEntryOf E d)"
  "entryMatches m (newEntryOf E d) \<longleftrightarrow> m = generatedIdentifier E d"
  by (auto simp: newEntryOf_def reachedE_newMetadataEntry newMetadataEntry_pair
      newMetadataEntry_matches generatedIdentifier_def)

lemma visit_expected:
  assumes "expectedShape body"
  obtains p where "visit E d body = Inr p" "expectedShape p"
    "filter (\<lambda>x. \<not> isImportDeclaration x) p
     = map (registered E d) (filter (\<lambda>x. \<not> isImportDeclaration x) body)"
proof -
  from assms have hs: "list_all hasSpecifier body"
    and wf: "\<forall>dc\<in>set (programDeclarators body). wellFormed dc"
    by (simp_all add: expectedShape_def expectedShape_wellFormed)
  from import_total[OF hs] obtain b1 where
    b1: "addAdapterMetadataImport E (protocolKeyOf E (protocolId d)) (protocolId d)
             (productId d) (chainKeyOf E (chainId d)) (chainId d) (fileKey d) body = Inr b1"
    and hs1: "list_all hasSpecifier b1" by blast
  have ds1: "programDeclarators b1 = programDeclarators body"
    using b1 by (rule addAdapterMetadataImport_declarators)
  have r1: "filter (\<lambda>x. \<not> isImportDeclaration x) b1 = filter (\<lambda>x. \<not> isImportDeclaration x) body"
    using b1 by (rule addAdapterMetadataImport_rest)
  let ?p = "map (registered E d) b1"
  have "mapE (traverseStmt E (protocolKeyOf E (protocolId d)) (productId d)
                  (chainKeyOf E (chainId d)) (fileKey d)) b1 = Inr ?p"
    using wf ds1 program_traversal_edited[of b1 E "protocolKeyOf E (protocolId d)" "productId d"
        "chainKeyOf E (chainId d)" "fileKey d"]
    by (simp add: registered_def[abs_def] generatedIdentifier_def newEntryOf_def)
  with b1 have v: "visit E d body = Inr ?p" by (simp add: visit_def)
  have "mset (programDeclarators ?p) = image_mset (registeredD E d) (mset (programDeclarators body))"
    using programDeclarators_edited[OF newEntryOf_facts(1), of "generatedIdentifier E d" E d b1]
    by (simp add: registered_def[abs_def] registeredD_def[abs_def] ds1)
  then have "set (programDeclarators ?p) = registeredD E d ` set (programDeclarators body)"
    by (metis set_image_mset set_mset_mset)
  then have "\<forall>dc\<in>set (programDeclarators ?p). wellFormed dc"
    using wf by (auto simp: registeredD_def edited_wellFormed[OF newEntryOf_facts(2)])
  moreover have "list_all hasSpecifier ?p"
    using hs1 by (simp add: list_all_iff registered_def hasSpecifier_edited)
  ultimately have e: "expectedShape ?p"
    by (simp add: expectedShape_def expectedShape_wellFormed)
  have "filter (\<lambda>x. \<not> isImportDeclaration x) ?p
        = map (registered E d) (filter (\<lambda>x. \<not> isImportDeclaration x) b1)"
    by (simp add: filter_map o_def registered_def isImportDeclaration_edited)
  with r1 have "filter (\<lambda>x. \<not> isImportDeclaration x) ?p
        = map (registered E d) (filter (\<lambda>x. \<not> isImportDeclaration x) body)" by simp
  with v e that show ?thesis by blast
qed

lemma registered_declarators:
  "mset (programDeclarators (map (registered E d) body))
   = image_mset (registeredD E d) (mset (programDeclarators body))"
  using programDeclarators_edited[OF newEntryOf_facts(1), of "generatedIdentifier E d" E d body]
  by (simp add: registered_def[abs_def] registeredD_def[abs_def])

lemma registered_commute:
  assumes "generatedIdentifier E a \<noteq> generatedIdentifier E b"
  shows "registered E b (registered E a s) = registered E a (registered E b s)"
  unfolding registered_def
  by (rule edited_commute(3)[OF _ _ _ _ assms])
     (simp_all add: newEntryOf_def generatedIdentifier_def)

lemma registeredD_facts:
  "isMetadataFiles (registeredD E d dc) = isMetadataFiles dc"
  "wellFormed dc \<Longrightarrow> wellFormed (registeredD E d dc)"
  "isMetadataFiles dc \<Longrightarrow> wellFormed dc \<Longrightarrow>
     registers m (initOf (registeredD E d dc)) \<longleftrightarrow> registers m (initOf dc) \<or> m = generatedIdentifier E d"
  "isMetadataFiles dc \<Longrightarrow> wellFormed dc \<Longrightarrow>
     sortedByIdentifier (initOf dc) \<or> \<not> registers (generatedIdentifier E d) (initOf dc) \<Longrightarrow>
     sortedByIdentifier (initOf (registeredD E d dc))"
  unfolding registeredD_def
  by (simp_all add: isMetadataFiles_edited edited_wellFormed[OF newEntryOf_facts(2)]
      edited_registers[OF newEntryOf_facts(3)] edited_sorted)

text \<open>The two orders of two registrations.\<close>

lemma both_orders:
  assumes "expectedShape body"
      and "generatedIdentifier E a \<noteq> generatedIdentifier E b"
  obtains p1 p2 q1 q2 where
    "visit E a body = Inr p1" "visit E b p1 = Inr p2"
    "visit E b body = Inr q1" "visit E a q1 = Inr q2"
    "filter (\<lambda>x. \<not> isImportDeclaration x) p2 = filter (\<lambda>x. \<not> isImportDeclaration x) q2"
    "mset (programDeclarators p2)
     = image_mset (\<lambda>dc. registeredD E b (registeredD E a dc)) (mset (programDeclarators body))"
proof -
  let ?R = "filter (\<lambda>x. \<not> isImportDeclaration x)"
  from visit_expected[OF assms(1), of E a] obtain p1 where
    p1: "visit E a body = Inr p1" "expectedShape p1" "?R p1 = map (registered E a) (?R body)"
    by blast
  from visit_expected[OF p1(2), of E b] obtain p2 where
    p2: "visit E b p1 = Inr p2" "?R p2 = map (registered E b) (?R p1)" by blast
  from visit_expected[OF assms(1), of E b] obtain q1 where
    q1: "visit E b body = Inr q1" "expectedShape q1" "?R q1 = map (registered E b) (?R body)"
    by blast
  from visit_expected[OF q1(2), of E a] obtain q2 where
    q2: "visit E a q1 = Inr q2" "?R q2 = map (registered E a) (?R q1)" by blast
  have eq: "?R p2 = ?R q2"
    by (simp add: p1(3) p2(2) q1(3) q2(2) registered_commute[OF assms(2)])
  have "programDeclarators p2 = programDeclarators (?R p2)"
    by (simp add: programDeclarators_rest)
  also have "mset \<dots> = image_mset (registeredD E b)
                 (image_mset (registeredD E a) (mset (programDeclarators (?R body))))"
    unfolding p2(2) p1(3) by (simp only: registered_declarators)
  finally have "mset (programDeclarators p2)
     = image_mset (\<lambda>dc. registeredD E b (registeredD E a dc)) (mset (programDeclarators body))"
    by (simp add: programDeclarators_rest image_mset.compositionality o_def)
  with p1(1) p2(1) q1(1) q2(1) eq that show ?thesis by blast
qed

subsection \<open>The transform on a program\<close>

lemma program_traversal_registered:
  assumes "\<forall>i\<in>set (metadataFilesInits body). registers (pk @ pascalCase E pr @ ck @ pascalCase E fk) i"
  shows "mapE (traverseStmt E pk pr ck fk) body = Inr body"
  by (rule mapE_id, rule traversal_registered(3))
     (use assms in \<open>auto simp: metadataFilesInits_def programDeclarators_def\<close>)

lemma visit_without_MetadataFiles:
  assumes "metadataFilesInits body = []"
  shows "visit E d body = addAdapterMetadataImport E (protocolKeyOf E (protocolId d)) (protocolId d)
             (productId d) (chainKeyOf E (chainId d)) (chainId d) (fileKey d) body"
proof (cases "addAdapterMetadataImport E (protocolKeyOf E (protocolId d)) (protocolId d)
             (productId d) (chainKeyOf E (chainId d)) (chainId d) (fileKey d) body")
  case (Inl e)
  then show ?thesis by (simp add: visit_def)
next
  case (Inr body')
  have "programDeclarators body' = programDeclarators body"
    using Inr by (rule addAdapterMetadataImport_declarators)
  with assms have "metadataFilesInits body' = []"
    by (simp add: metadataFilesInits_def)
  then have "mapE (traverseStmt E (protocolKeyOf E (protocolId d)) (productId d)
                     (chainKeyOf E (chainId d)) (fileKey d)) body' = Inr body'"
    by (intro program_traversal_registered) simp
  with Inr show ?thesis by (simp add: visit_def)
qed

lemma program_traversal_throws:
  assumes "i \<in> set (metadataFilesInits body)" and "\<not> newMapOfArray i"
  shows "\<exists>e. mapE (traverseStmt E pk pr ck fk) body = Inl e"
proof -
  from assms(1) obtain dc s where dc: "s \<in> set body" "dc \<in> set (reachedS s)"
    "isMetadataFiles dc" "initOf dc = i"
    by (auto simp: metadataFilesInits_def programDeclarators_def)
  from dc(3) assms(2) dc(2) have "isl (traverseStmt E pk pr ck fk s)"
    unfolding dc(4)[symmetric] by (rule traversal_throws(3))
  with dc(1) have "isl (mapE (traverseStmt E pk pr ck fk) body)" by (rule mapE_throws)
  then show ?thesis by (auto simp: isl_def)
qed

lemma visit_throws:
  assumes "i \<in> set (metadataFilesInits body)" and "\<not> newMapOfArray i"
  shows "\<exists>e. visit E d body = Inl e"
proof (cases "addAdapterMetadataImport E (protocolKeyOf E (protocolId d)) (protocolId d)
             (productId d) (chainKeyOf E (chainId d)) (chainId d) (fileKey d) body")
  case (Inl e)
  then show ?thesis by (simp add: visit_def)
next
  case (Inr b1)
  have "programDeclarators b1 = programDeclarators body"
    using Inr by (rule addAdapterMetadataImport_declarators)
  with assms(1) have "i \<in> set (metadataFilesInits b1)"
    by (simp add: metadataFilesInits_def)
  from program_traversal_throws[OF this assms(2)] Inr show ?thesis
    by (simp add: visit_def)
qed

lemma visit_throws_incorrectlyTyped:
  assumes "list_all hasSpecifier body"
      and "i \<in> set (metadataFilesInits body)" and "\<not> newMapOfArray i"
      and "list_all (\<lambda>j. \<not> newMapOfArray j \<or> mapOfPairs j) (metadataFilesInits body)"
  shows "visit E d body = Inl IncorrectlyTypedMetadataFiles"
proof -
  let ?t = "traverseStmt E (protocolKeyOf E (protocolId d)) (productId d)
              (chainKeyOf E (chainId d)) (fileKey d)"
  from import_total[OF assms(1)] obtain b1 where
    b1: "addAdapterMetadataImport E (protocolKeyOf E (protocolId d)) (protocolId d)
             (productId d) (chainKeyOf E (chainId d)) (chainId d) (fileKey d) body = Inr b1"
    by blast
  have ds1: "programDeclarators b1 = programDeclarators body"
    using b1 by (rule addAdapterMetadataImport_declarators)
  with assms(2) have "i \<in> set (metadataFilesInits b1)"
    by (simp add: metadataFilesInits_def)
  from program_traversal_throws[OF this assms(3)] obtain e where e: "mapE ?t b1 = Inl e"
    by blast
  from mapE_error[OF e] obtain s where s: "s \<in> set b1" "?t s = Inl e" by blast
  have "\<forall>dc\<in>set (reachedS s). \<not> newMapOfArray (initOf dc) \<or> wellFormed dc"
  proof
    fix dc assume "dc \<in> set (reachedS s)"
    with s(1) have dc: "dc \<in> set (programDeclarators body)"
      unfolding ds1[symmetric] by (auto simp: programDeclarators_def)
    show "\<not> newMapOfArray (initOf dc) \<or> wellFormed dc"
    proof (cases "isMetadataFiles dc")
      case True
      with dc have "initOf dc \<in> set (metadataFilesInits body)"
        by (simp add: metadataFilesInits_def)
      with assms(4) show ?thesis by (auto simp: list_all_iff wellFormed_def)
    next
      case False
      then show ?thesis by (simp add: wellFormed_def)
    qed
  qed
  from traversal_error(3)[OF s(2) this] e b1 show ?thesis
    by (simp add: visit_def)
qed

section \<open>Facts about the orchestrator\<close>

text \<open>
  A step that ends the action, by \<open>return\<close> or by a throw, ends every loop around it
  with the same result.
\<close>

fun stops :: "flow \<Rightarrow> bool" where
  "stops (Next _) = False"
| "stops _ = True"

lemma adaptersLoop_append:
  "adaptersLoop E as1 s = Next s' \<Longrightarrow> adaptersLoop E (as1 @ as2) s = adaptersLoop E as2 s'"
  by (induction as1 arbitrary: s) (auto split: flow.splits)

lemma chainsLoop_append:
  "chainsLoop E C p cs1 s = Next s' \<Longrightarrow> chainsLoop E C p (cs1 @ cs2) s = chainsLoop E C p cs2 s'"
  by (induction cs1 arbitrary: s) (auto split: flow.splits if_splits)

lemma protocolsLoop_append:
  "protocolsLoop E C ps1 s = Next s' \<Longrightarrow> protocolsLoop E C (ps1 @ ps2) s = protocolsLoop E C ps2 s'"
  by (induction ps1 arbitrary: s) (auto split: flow.splits if_splits)

lemma adaptersLoop_stops:
  "stops (processAdapter E a s) \<Longrightarrow> adaptersLoop E (a # as2) s = processAdapter E a s"
  by (cases "processAdapter E a s") auto

lemma run_stops:
  assumes "runReaches E C s0 a s" and "stops (processAdapter E a s)"
  shows "buildMetadataAction E C s0 = processAdapter E a s"
proof -
  from assms(1) obtain ps1 p supportedChains ps2 cs1 c cs2 as1 as2 s1 s2 where r:
    "supportedProtocols C = ps1 @ (p, supportedChains) # ps2"
    "protocolsLoop E C ps1 s0 = Next s1"
    "\<not> filteredOut (filterProtocolIds C) p"
    "supportedChains = cs1 @ c # cs2"
    "chainsLoop E C p cs1 s1 = Next s2"
    "\<not> filteredOut (filterChainIds C) c"
    "chainProviders C c"
    "fetchChainProtocolAdapters C c p = as1 @ a # as2"
    "adaptersLoop E as1 s2 = Next s"
    unfolding runReaches_def by blast
  have a: "adaptersLoop E (as1 @ a # as2) s2 = processAdapter E a s"
    using adaptersLoop_append[OF r(9)] adaptersLoop_stops[OF assms(2)] by simp
  have "chainsLoop E C p (c # cs2) s2 = processAdapter E a s"
    using r(6,7,8) a assms(2) by (cases "processAdapter E a s") auto
  then have c: "chainsLoop E C p supportedChains s1 = processAdapter E a s"
    using chainsLoop_append[OF r(5)] r(4) by simp
  have "protocolsLoop E C ((p, supportedChains) # ps2) s1 = processAdapter E a s"
    using r(3) c assms(2) by (cases "processAdapter E a s") auto
  then show ?thesis
    using protocolsLoop_append[OF r(2)] r(1) by (simp add: buildMetadataAction_def)
qed

lemma recovers_catch: "recovers p \<Longrightarrow> \<exists>r. catchNotImplemented p = Inr r"
  by (cases p) (auto simp: catchNotImplemented_def)

lemma fetch_notImplemented:
  assumes "capabilities a = before @ [(m, Rejected NotImplementedError)]"
      and "\<forall>c\<in>set before. recovers (snd c)"
  shows "fetchMetadataDetails a = (Inr None, map fst (capabilities a))"
proof (cases "buildMetadata a")
  case None
  with assms show ?thesis
    by (auto simp: capabilities_def fetchMetadataDetails_def catchNotImplemented_def
        Cons_eq_append_conv split: if_splits)
next
  case (Some q)
  with assms(1) have q: "q = Rejected NotImplementedError"
    by (auto simp: capabilities_def split: if_splits)
  show ?thesis
  proof (cases "version a = 2")
    case True
    with Some assms(1) q have "before = [(''getProtocolTokens'', getProtocolTokens a)]"
      by (auto simp: capabilities_def)
    with assms(2) obtain r where "catchNotImplemented (getProtocolTokens a) = Inr r"
      using recovers_catch by fastforce
    with True Some q show ?thesis
      by (simp add: capabilities_def fetchMetadataDetails_def catchNotImplemented_def)
  next
    case False
    with Some q show ?thesis
      by (simp add: capabilities_def fetchMetadataDetails_def catchNotImplemented_def)
  qed
qed

lemma fetch_fatal:
  assumes "capabilities a = before @ (m, Rejected e) # after"
      and "e \<noteq> NotImplementedError"
      and "\<forall>c\<in>set before. recovers (snd c)"
  shows "fetchMetadataDetails a = (Inl e, map fst before @ [m])"
proof (cases "version a = 2")
  case False
  with assms show ?thesis
    by (auto simp: capabilities_def fetchMetadataDetails_def catchNotImplemented_def
        Cons_eq_append_conv split: option.splits)
next
  case True
  show ?thesis
  proof (cases before)
    case Nil
    with True assms(1,2) show ?thesis
      by (auto simp: capabilities_def fetchMetadataDetails_def catchNotImplemented_def
          split: option.splits)
  next
    case (Cons b bs)
    with True assms(1) have b: "b = (''getProtocolTokens'', getProtocolTokens a)"
      and rest: "bs = []" "buildMetadata a = Some (Rejected e)" "m = ''buildMetadata''"
      by (auto simp: capabilities_def Cons_eq_append_conv split: option.splits)
    from assms(3) Cons b obtain r where "catchNotImplemented (getProtocolTokens a) = Inr r"
      using recovers_catch by fastforce
    with True Cons b rest assms(2) show ?thesis
      by (simp add: fetchMetadataDetails_def catchNotImplemented_def)
  qed
qed

lemma addStaticImport_thrown: "addStaticImport E k t = Thrown e t' \<Longrightarrow> t' = t"
  by (auto simp: addStaticImport_def split: option.splits sum.splits)

lemma runReachesI:
  assumes "supportedProtocols C = ps1 @ (p, supportedChains) # ps2"
      and "protocolsLoop E C ps1 s0 = Next s1"
      and "\<not> filteredOut (filterProtocolIds C) p"
      and "supportedChains = cs1 @ c # cs2"
      and "chainsLoop E C p cs1 s1 = Next s2"
      and "\<not> filteredOut (filterChainIds C) c"
      and "chainProviders C c"
      and "fetchChainProtocolAdapters C c p = as1 @ a # as2"
      and "adaptersLoop E as1 s2 = Next s"
  shows "runReaches E C s0 a s"
  unfolding runReaches_def using assms by blast

lemma stops_cases: "stops r \<longleftrightarrow> (\<forall>s. r \<noteq> Next s)"
  by (cases r) auto

text \<open>Every element of a list occurs in the list joined by a separator.\<close>

lemma sublist_extend: "sublist x acc \<Longrightarrow> sublist x (acc @ ys)"
proof -
  assume "sublist x acc"
  then obtain ps ss where "acc = ps @ x @ ss" by (auto simp: sublist_def)
  then have "acc @ ys = ps @ x @ (ss @ ys)" by simp
  then show ?thesis unfolding sublist_def by blast
qed

lemma sublist_last: "sublist x (acc @ x)"
proof -
  have "acc @ x = acc @ x @ []" by simp
  then show ?thesis unfolding sublist_def by blast
qed

lemma foldl_join_keeps:
  "sublist x acc \<Longrightarrow> sublist x (foldl (\<lambda>acc y. acc @ sep @ y) acc ys)"
proof (induction ys arbitrary: acc)
  case Nil
  then show ?case by simp
next
  case (Cons y ys)
  from Cons.prems have "sublist x (acc @ sep @ y)" by (rule sublist_extend)
  then show ?case by (simp add: Cons.IH)
qed

lemma foldl_join_contains:
  "x \<in> set ys \<Longrightarrow> sublist x (foldl (\<lambda>acc y. acc @ sep @ y) acc ys)"
proof (induction ys arbitrary: acc)
  case Nil
  then show ?case by simp
next
  case (Cons y ys)
  show ?case
  proof (cases "x = y")
    case True
    have "sublist x ((acc @ sep) @ x)" by (rule sublist_last)
    with True show ?thesis by (simp add: foldl_join_keeps)
  next
    case False
    with Cons.prems have "x \<in> set ys" by simp
    then show ?thesis by (simp add: Cons.IH)
  qed
qed

lemma join_contains: "x \<in> set xs \<Longrightarrow> sublist x (join sep xs)"
proof (cases xs)
  case Nil
  assume "x \<in> set xs"
  with Nil show ?thesis by simp
next
  case (Cons y ys)
  assume x: "x \<in> set xs"
  show ?thesis
  proof (cases "x = y")
    case True
    have "sublist x x" by simp
    then have "sublist x (foldl (\<lambda>acc z. acc @ sep @ z) x ys)" by (rule foldl_join_keeps)
    with True Cons show ?thesis by (simp add: join_def)
  next
    case False
    with x Cons have "x \<in> set ys" by simp
    then have "sublist x (foldl (\<lambda>acc z. acc @ sep @ z) y ys)" by (rule foldl_join_contains)
    with Cons show ?thesis by (simp add: join_def)
  qed
qed

section \<open>Evaluating the examples\<close>

lemmas edit_defs =
  visit_def addAdapterMetadataImport_def buildImportAdapterMetadataEntry_def
  isImportDeclaration_def importMatches_def
  addAdapterMetadataEntry_def entryMatches_def entryName_def sortByEntryName_def
  sortEntries_def newMetadataEntry_def

lemmas example_defs =
  exampleEnv_def exampleKey_def otherKey_def exampleRegistry_def exampleRegistered_def
  exampleUnrelated_def chainsImport_def exampleMap_def exampleImport_def exampleEntry_def
  exampleName_def exampleHelper_def exampleNested_def exampleSortKey_def exampleSkipped_def
  thirdKey_def firstColliding_def secondColliding_def collidingRegistry_def

lemmas file_defs =
  addStaticImport_def adapterMetadataFile_def metadataFilePath_def writeMetadataToFile_def
  writeAndLintFile_def exampleState_def

lemmas adapter_defs =
  processAdapter_def fetchMetadataDetails_def catchNotImplemented_def registerMetadata_def
  invoked_def exampleAdapter_def goodAdapter_def badAdapter_def laterAdapter_def
  skippedAdapter_def failingAdapter_def

lemma example_env:
  "parse exampleEnv ''registry'' = Some exampleRegistry"
  "parse exampleEnv ''registered'' = Some exampleRegistered"
  "parse exampleEnv ''unrelated'' = Some exampleUnrelated"
  "parse exampleEnv ''bare'' = Some (ImportDeclaration [] ''./x'' # exampleUnrelated)"
  "parse exampleEnv ''no map'' = Some [chainsImport]"
  "parse exampleEnv ''nested'' = Some exampleNested"
  "parse exampleEnv ''sort key'' = Some exampleSortKey"
  "parse exampleEnv ''skipped'' = Some exampleSkipped"
  "print exampleEnv (exampleImport # exampleSkipped) = ''skipped with import''"
  "print exampleEnv exampleRegistered = ''registered''"
  "print exampleEnv [chainsImport, exampleImport] = ''import only''"
  "resolve exampleEnv path = ''/repo/'' @ path"
  "lint exampleEnv path text = text"
  "stringify exampleEnv j = ''json''"
  "getMetadataInvalidAddresses exampleEnv (JString a) = (if a = ''0xab'' then [a] else [])"
  "ChainName exampleEnv 1 = ''ethereum''"
  by (simp_all add: exampleEnv_def exampleRegistered_def exampleImport_def chainsImport_def
      exampleSkipped_def exampleHelper_def)

lemma example_visit: "visit exampleEnv exampleKey exampleRegistry = Inr exampleRegistered"
  by (simp add: edit_defs example_defs)

lemma example_committed:
  "processAdapter exampleEnv goodAdapter (exampleState ''registry'') = Next committedState"
  by (simp add: adapter_defs file_defs committedState_def example_env example_visit
      exampleKey_def[symmetric])

lemma example_reaches:
  "runReaches exampleEnv (exampleConfig [goodAdapter, a, laterAdapter]) (exampleState ''registry'')
     a committedState"
  by (rule runReachesI[where ?ps1.0 = "[]" and p = "''aave-v2''" and supportedChains = "[1]"
          and ?ps2.0 = "[]" and ?cs1.0 = "[]" and c = 1 and ?cs2.0 = "[]"
          and ?as1.0 = "[goodAdapter]" and ?as2.0 = "[laterAdapter]"
          and ?s1.0 = "exampleState ''registry''" and ?s2.0 = "exampleState ''registry''"])
     (simp_all add: exampleConfig_def filteredOut_def example_committed)

lemma example_first:
  "runReaches exampleEnv (exampleConfig (a # rest)) s a s"
  by (rule runReachesI[where ?ps1.0 = "[]" and p = "''aave-v2''" and supportedChains = "[1]"
          and ?ps2.0 = "[]" and ?cs1.0 = "[]" and c = 1 and ?cs2.0 = "[]"
          and ?as1.0 = "[]" and ?as2.0 = rest and ?s1.0 = s and ?s2.0 = s])
     (simp_all add: exampleConfig_def filteredOut_def)

section \<open>The claims\<close>

text \<open>
  C1, amended. Registration is idempotent: for every program body and every key whose
  generated identifier is the local name of the first specifier of an import declaration
  \<open>x\<close> of the body, with no import declaration without specifiers before \<open>x\<close>, and is
  the value identifier of a pair in the array of every declarator named
  \<open>MetadataFiles\<close> that the traversal reaches (also one inside the initializer of
  another declarator, such as the body of a function expression), the registry transform
  (the import-section edit and the registry-entry edit) returns the syntax tree
  unchanged: no import and no entry is added.
\<close>

theorem registration_idempotent:
  assumes "filter isImportDeclaration body = pre @ x # post"
      and "\<forall>y\<in>set pre. hasSpecifier y"
      and "bindsFirst (generatedIdentifier E d) x"
      and "\<forall>i\<in>set (metadataFilesInits body). registers (generatedIdentifier E d) i"
    shows "visit E d body = Inr body"
proof -
  have imp: "addAdapterMetadataImport E (protocolKeyOf E (protocolId d)) (protocolId d)
             (productId d) (chainKeyOf E (chainId d)) (chainId d) (fileKey d) body = Inr body"
    using assms(1,2,3) unfolding generatedIdentifier_def by (rule import_found)
  have "mapE (traverseStmt E (protocolKeyOf E (protocolId d)) (productId d)
                (chainKeyOf E (chainId d)) (fileKey d)) body = Inr body"
    using assms(4) unfolding generatedIdentifier_def by (rule program_traversal_registered)
  with imp show ?thesis by (simp add: visit_def)
qed

theorem registration_idempotent_witness:
  "visit exampleEnv exampleKey
     (exampleRegistered @ [exampleHelper (IdentifierPattern ''helper'')
                             (NewExpression (Identifier ''Map'') [ArrayExpression [exampleEntry]])])
   = Inr (exampleRegistered @ [exampleHelper (IdentifierPattern ''helper'')
                             (NewExpression (Identifier ''Map'') [ArrayExpression [exampleEntry]])])"
  using registration_idempotent
    [where body = "exampleRegistered @ [exampleHelper (IdentifierPattern ''helper'')
                             (NewExpression (Identifier ''Map'') [ArrayExpression [exampleEntry]])]"
       and pre = "[chainsImport]" and x = exampleImport
       and post = "[]" and E = exampleEnv and d = exampleKey]
  by (simp add: isImportDeclaration_def hasSpecifier_def bindsFirst_def generatedIdentifier_def
      metadataFilesInits_def programDeclarators_def isMetadataFiles_def registers_def
      entryMatches_def example_defs)

text \<open>
  The claim as stated fails in three ways. With an import declaration without specifiers
  before the import of the identifier, the transform throws instead of returning the
  tree. With the identifier bound by a specifier that is not the first of its import
  declaration, the search does not find it and a second import of the identifier is
  added. With the identifier imported and registered in the \<open>MetadataFiles\<close> of the
  program, and a second declarator named \<open>MetadataFiles\<close> in the body of a helper
  function whose initializer is the literal \<open>1\<close>, the traversal reaches the second
  declarator and the transform throws.
\<close>

theorem registration_idempotent_counterexample:
  "visit exampleEnv exampleKey (ImportDeclaration [] ''./x'' # exampleRegistered) = Inl TypeError
   \<and> visit exampleEnv exampleKey
         [ImportDeclaration
            [Specifier ImportDefaultSpecifier (Some ''All''),
             Specifier ImportSpecifier (Some exampleName)] ''./all'',
          exampleMap [exampleEntry]]
       = Inr [ImportDeclaration
                [Specifier ImportDefaultSpecifier (Some ''All''),
                 Specifier ImportSpecifier (Some exampleName)] ''./all'',
              exampleImport,
              exampleMap [exampleEntry]]
   \<and> visit exampleEnv exampleKey exampleNested = Inl IncorrectlyTypedMetadataFiles"
  by (simp add: edit_defs example_defs)

text \<open>
  C2, amended. Registration is order-independent for keys with distinct generated
  identifiers: for every registry program of the expected shape and every two keys whose
  generated identifiers differ, registering the first and then the second succeeds,
  registering the second and then the first succeeds, and both orders end with the same
  initializers of \<open>MetadataFiles\<close>, hence the same array content; the statements other
  than imports are the same as well (the imports are appended in the order of
  registration and may differ in order). No \<open>MetadataFiles\<close> declarator is lost or added;
  every final initializer is a new map from an array of pairs that has a pair for each of
  the two identifiers; the identifiers registered in a final array are those of an array
  of the body and the two new ones, and every array of the body is continued in this way;
  and every final array is sorted by identifier when the arrays of the body were sorted,
  and also when no array of the body had both identifiers, so that an insertion, and with
  it the sort, took place in each of them.
\<close>

theorem registration_order_independent:
  assumes "expectedShape body"
      and "generatedIdentifier E a \<noteq> generatedIdentifier E b"
  shows "\<exists>p1 p2 q1 q2.
           visit E a body = Inr p1 \<and> visit E b p1 = Inr p2 \<and>
           visit E b body = Inr q1 \<and> visit E a q1 = Inr q2 \<and>
           metadataFilesInits p2 = metadataFilesInits q2 \<and>
           filter (\<lambda>x. \<not> isImportDeclaration x) p2 = filter (\<lambda>x. \<not> isImportDeclaration x) q2 \<and>
           length (metadataFilesInits p2) = length (metadataFilesInits body) \<and>
           (\<forall>i\<in>set (metadataFilesInits p2).
              mapOfPairs i \<and> registers (generatedIdentifier E a) i
              \<and> registers (generatedIdentifier E b) i
              \<and> (\<exists>i0\<in>set (metadataFilesInits body).
                    \<forall>m. registers m i \<longleftrightarrow>
                      registers m i0 \<or> m = generatedIdentifier E a \<or> m = generatedIdentifier E b)) \<and>
           (\<forall>i0\<in>set (metadataFilesInits body).
              \<exists>i\<in>set (metadataFilesInits p2).
                \<forall>m. registers m i \<longleftrightarrow>
                  registers m i0 \<or> m = generatedIdentifier E a \<or> m = generatedIdentifier E b) \<and>
           (list_all sortedByIdentifier (metadataFilesInits body)
              \<or> list_all (\<lambda>i. \<not> registers (generatedIdentifier E a) i
                                \<or> \<not> registers (generatedIdentifier E b) i)
                   (metadataFilesInits body)
            \<longrightarrow> list_all sortedByIdentifier (metadataFilesInits p2))"
proof -
  let ?na = "generatedIdentifier E a" and ?nb = "generatedIdentifier E b"
  let ?F = "\<lambda>dc. registeredD E b (registeredD E a dc)"
  let ?R = "filter (\<lambda>x. \<not> isImportDeclaration x)"
  from both_orders[OF assms] obtain p1 p2 q1 q2 where
    v: "visit E a body = Inr p1" "visit E b p1 = Inr p2"
       "visit E b body = Inr q1" "visit E a q1 = Inr q2"
    and r: "?R p2 = ?R q2"
    and ds: "mset (programDeclarators p2) = image_mset ?F (mset (programDeclarators body))"
    by blast
  have wf: "\<forall>dc\<in>set (programDeclarators body). wellFormed dc"
    using assms(1) by (simp add: expectedShape_def expectedShape_wellFormed)
  have mf: "\<And>dc. isMetadataFiles (?F dc) = isMetadataFiles dc"
    by (simp add: registeredD_facts(1))
  have eq: "metadataFilesInits p2 = metadataFilesInits q2"
    using r metadataFilesInits_rest[of p2] metadataFilesInits_rest[of q2] by simp
  have inits: "mset (metadataFilesInits p2)
               = image_mset (\<lambda>dc. initOf (?F dc))
                   (filter_mset isMetadataFiles (mset (programDeclarators body)))"
  proof -
    have "mset (filter isMetadataFiles (programDeclarators p2))
          = image_mset ?F (filter_mset isMetadataFiles (mset (programDeclarators body)))"
      by (simp only: mset_filter ds filter_mset_image_mset mf)
    then have "mset (map initOf (filter isMetadataFiles (programDeclarators p2)))
          = image_mset initOf
              (image_mset ?F (filter_mset isMetadataFiles (mset (programDeclarators body))))"
      by (simp only: mset_map)
    then show ?thesis
      by (simp add: metadataFilesInits_def image_mset.compositionality o_def)
  qed
  have len: "length (metadataFilesInits p2) = length (metadataFilesInits body)"
    using arg_cong[OF inits, of size] by (simp add: metadataFilesInits_def flip: mset_filter)
  have set2: "set (metadataFilesInits p2)
              = (\<lambda>dc. initOf (?F dc)) ` {dc \<in> set (programDeclarators body). isMetadataFiles dc}"
    using arg_cong[OF inits, of set_mset] by simp
  have set0: "set (metadataFilesInits body)
              = initOf ` {dc \<in> set (programDeclarators body). isMetadataFiles dc}"
    by (simp add: metadataFilesInits_def)
  have reg: "registers m (initOf (?F dc)) \<longleftrightarrow> registers m (initOf dc) \<or> m = ?na \<or> m = ?nb"
    if "dc \<in> set (programDeclarators body)" "isMetadataFiles dc" for dc m
  proof -
    from that wf have w: "wellFormed dc" by blast
    from registeredD_facts(3)[OF that(2) w, of m E a]
      registeredD_facts(3)[of "registeredD E a dc" m E b]
      registeredD_facts(1)[of E a dc] registeredD_facts(2)[OF w, of E a] that(2)
    show ?thesis by auto
  qed
  have pairs: "mapOfPairs (initOf (?F dc))"
    if "dc \<in> set (programDeclarators body)" "isMetadataFiles dc" for dc
  proof -
    from that wf have "wellFormed dc" by blast
    then have "wellFormed (?F dc)" by (intro registeredD_facts(2))
    with that(2) mf show ?thesis by (simp add: wellFormed_def)
  qed
  have srt: "sortedByIdentifier (initOf (?F dc))"
    if "dc \<in> set (programDeclarators body)" "isMetadataFiles dc"
       "sortedByIdentifier (initOf dc) \<or> \<not> registers ?na (initOf dc) \<or> \<not> registers ?nb (initOf dc)"
    for dc
  proof -
    from that wf have w: "wellFormed dc" by blast
    have ma: "isMetadataFiles (registeredD E a dc)" and wa: "wellFormed (registeredD E a dc)"
      using that(2) w by (simp_all add: registeredD_facts(1,2))
    show ?thesis
    proof (cases "sortedByIdentifier (initOf dc) \<or> \<not> registers ?na (initOf dc)")
      case True
      then have "sortedByIdentifier (initOf (registeredD E a dc))"
        by (intro registeredD_facts(4)[OF that(2) w])
      then show ?thesis by (intro registeredD_facts(4)[OF ma wa]) simp
    next
      case False
      with that(3) have "\<not> registers ?nb (initOf dc)" by blast
      then have "\<not> registers ?nb (initOf (registeredD E a dc))"
        using assms(2) by (simp add: registeredD_facts(3)[OF that(2) w])
      then show ?thesis by (intro registeredD_facts(4)[OF ma wa]) simp
    qed
  qed
  have c1: "\<forall>i\<in>set (metadataFilesInits p2).
              mapOfPairs i \<and> registers ?na i \<and> registers ?nb i
              \<and> (\<exists>i0\<in>set (metadataFilesInits body).
                    \<forall>m. registers m i \<longleftrightarrow> registers m i0 \<or> m = ?na \<or> m = ?nb)"
    unfolding set2 set0 using reg pairs by auto
  have c2: "\<forall>i0\<in>set (metadataFilesInits body).
              \<exists>i\<in>set (metadataFilesInits p2).
                \<forall>m. registers m i \<longleftrightarrow> registers m i0 \<or> m = ?na \<or> m = ?nb"
    unfolding set2 set0 using reg by auto
  have c3: "list_all sortedByIdentifier (metadataFilesInits body)
              \<or> list_all (\<lambda>i. \<not> registers ?na i \<or> \<not> registers ?nb i) (metadataFilesInits body)
            \<longrightarrow> list_all sortedByIdentifier (metadataFilesInits p2)"
    unfolding list_all_iff set2 set0 using srt by auto
  from v eq r len c1 c2 c3 show ?thesis by blast
qed

theorem registration_order_independent_witness:
  "\<exists>p1 p2 q1 q2.
     visit exampleEnv otherKey exampleRegistered = Inr p1 \<and> visit exampleEnv thirdKey p1 = Inr p2 \<and>
     visit exampleEnv thirdKey exampleRegistered = Inr q1 \<and> visit exampleEnv otherKey q1 = Inr q2 \<and>
     metadataFilesInits p2 = metadataFilesInits q2 \<and>
     filter (\<lambda>x. \<not> isImportDeclaration x) p2 = filter (\<lambda>x. \<not> isImportDeclaration x) q2 \<and>
     length (metadataFilesInits p2) = 1 \<and>
     list_all (\<lambda>i. mapOfPairs i \<and> registers ''StargatepoolArbitrumlp'' i
                     \<and> registers ''StargateAArbitrumB'' i
                     \<and> registers ''AaveV2StableDebtTokenEthereumStableDebtTokenV2'' i)
       (metadataFilesInits p2) \<and>
     list_all sortedByIdentifier (metadataFilesInits p2)"
proof -
  let ?i0 = "Some (NewExpression (Identifier ''Map'') [ArrayExpression [exampleEntry]])"
  have shape: "expectedShape exampleRegistered"
    by (simp add: expectedShape_def hasSpecifier_def metadataFilesInits_def programDeclarators_def
        isMetadataFiles_def example_defs)
  have names: "generatedIdentifier exampleEnv otherKey = ''StargatepoolArbitrumlp''"
    "generatedIdentifier exampleEnv thirdKey = ''StargateAArbitrumB''"
    by (simp_all add: generatedIdentifier_def exampleEnv_def otherKey_def thirdKey_def)
  have inits: "metadataFilesInits exampleRegistered = [?i0]"
    by (simp add: metadataFilesInits_def programDeclarators_def isMetadataFiles_def
        exampleRegistered_def exampleMap_def chainsImport_def exampleImport_def
        exampleEntry_def exampleName_def)
  have entry: "registers ''AaveV2StableDebtTokenEthereumStableDebtTokenV2'' ?i0"
    by (simp add: registers_def entryMatches_def exampleEntry_def exampleName_def)
  have srt: "sortedByIdentifier ?i0"
    by (simp add: sortedByIdentifier_def)
  have differ: "generatedIdentifier exampleEnv otherKey \<noteq> generatedIdentifier exampleEnv thirdKey"
    by (simp add: names)
  from registration_order_independent[OF shape differ]
  obtain p1 p2 q1 q2 where
    *: "visit exampleEnv otherKey exampleRegistered = Inr p1 \<and> visit exampleEnv thirdKey p1 = Inr p2 \<and>
        visit exampleEnv thirdKey exampleRegistered = Inr q1 \<and> visit exampleEnv otherKey q1 = Inr q2 \<and>
        metadataFilesInits p2 = metadataFilesInits q2 \<and>
        filter (\<lambda>x. \<not> isImportDeclaration x) p2 = filter (\<lambda>x. \<not> isImportDeclaration x) q2 \<and>
        length (metadataFilesInits p2) = length (metadataFilesInits exampleRegistered) \<and>
        (\<forall>i\<in>set (metadataFilesInits p2).
              mapOfPairs i \<and> registers (generatedIdentifier exampleEnv otherKey) i
              \<and> registers (generatedIdentifier exampleEnv thirdKey) i
              \<and> (\<exists>i0\<in>set (metadataFilesInits exampleRegistered).
                    \<forall>m. registers m i \<longleftrightarrow>
                      registers m i0 \<or> m = generatedIdentifier exampleEnv otherKey
                      \<or> m = generatedIdentifier exampleEnv thirdKey)) \<and>
        (\<forall>i0\<in>set (metadataFilesInits exampleRegistered).
              \<exists>i\<in>set (metadataFilesInits p2).
                \<forall>m. registers m i \<longleftrightarrow>
                  registers m i0 \<or> m = generatedIdentifier exampleEnv otherKey
                  \<or> m = generatedIdentifier exampleEnv thirdKey) \<and>
        (list_all sortedByIdentifier (metadataFilesInits exampleRegistered)
              \<or> list_all (\<lambda>i. \<not> registers (generatedIdentifier exampleEnv otherKey) i
                                \<or> \<not> registers (generatedIdentifier exampleEnv thirdKey) i)
                   (metadataFilesInits exampleRegistered)
            \<longrightarrow> list_all sortedByIdentifier (metadataFilesInits p2))"
    by (elim exE) (rule that)
  from * have v: "visit exampleEnv otherKey exampleRegistered = Inr p1"
    "visit exampleEnv thirdKey p1 = Inr p2"
    "visit exampleEnv thirdKey exampleRegistered = Inr q1" "visit exampleEnv otherKey q1 = Inr q2"
    "metadataFilesInits p2 = metadataFilesInits q2"
    "filter (\<lambda>x. \<not> isImportDeclaration x) p2 = filter (\<lambda>x. \<not> isImportDeclaration x) q2"
    by blast+
  from * have "length (metadataFilesInits p2) = length (metadataFilesInits exampleRegistered)"
    by blast
  then have len: "length (metadataFilesInits p2) = 1"
    by (simp add: inits)
  from * have "\<forall>i\<in>set (metadataFilesInits p2).
              mapOfPairs i \<and> registers (generatedIdentifier exampleEnv otherKey) i
              \<and> registers (generatedIdentifier exampleEnv thirdKey) i
              \<and> (\<exists>i0\<in>set (metadataFilesInits exampleRegistered).
                    \<forall>m. registers m i \<longleftrightarrow>
                      registers m i0 \<or> m = generatedIdentifier exampleEnv otherKey
                      \<or> m = generatedIdentifier exampleEnv thirdKey)"
    by blast
  then have all: "list_all (\<lambda>i. mapOfPairs i \<and> registers ''StargatepoolArbitrumlp'' i
                     \<and> registers ''StargateAArbitrumB'' i
                     \<and> registers ''AaveV2StableDebtTokenEthereumStableDebtTokenV2'' i)
       (metadataFilesInits p2)"
    using entry by (simp add: list_all_iff inits names)
  from * have "list_all sortedByIdentifier (metadataFilesInits exampleRegistered)
               \<longrightarrow> list_all sortedByIdentifier (metadataFilesInits p2)"
    by blast
  then have "list_all sortedByIdentifier (metadataFilesInits p2)"
    by (simp add: inits srt)
  with v len all show ?thesis by blast
qed

text \<open>
  The claim as stated fails for two distinct keys with the same generated identifier.
  The keys (\<open>aave-v2\<close>, \<open>a\<close>, chain 1, \<open>ethereum-b\<close>) and (\<open>aave-v2\<close>, \<open>a-ethereum\<close>,
  chain 1, \<open>b\<close>) both give \<open>AaveV2AEthereumEthereumB\<close>. Whichever is registered first
  adds its import and its pair; the registration of the other finds the identifier and
  changes nothing. The two orders end with different arrays.
\<close>

theorem registration_order_independent_counterexample:
  "firstColliding \<noteq> secondColliding
   \<and> generatedIdentifier exampleEnv firstColliding = generatedIdentifier exampleEnv secondColliding
   \<and> expectedShape exampleRegistry
   \<and> visit exampleEnv firstColliding exampleRegistry = Inr (collidingRegistry ''a'' ''ethereum-b'')
   \<and> visit exampleEnv secondColliding (collidingRegistry ''a'' ''ethereum-b'')
       = Inr (collidingRegistry ''a'' ''ethereum-b'')
   \<and> visit exampleEnv secondColliding exampleRegistry = Inr (collidingRegistry ''a-ethereum'' ''b'')
   \<and> visit exampleEnv firstColliding (collidingRegistry ''a-ethereum'' ''b'')
       = Inr (collidingRegistry ''a-ethereum'' ''b'')
   \<and> metadataFilesInits (collidingRegistry ''a'' ''ethereum-b'')
       \<noteq> metadataFilesInits (collidingRegistry ''a-ethereum'' ''b'')"
  by (simp add: edit_defs example_defs generatedIdentifier_def expectedShape_def hasSpecifier_def
      metadataFilesInits_def programDeclarators_def isMetadataFiles_def)

text \<open>
  C3. Checksum gate: when the run reaches an adapter whose metadata payload has invalid
  addresses, the action returns at once. Four lines are printed to standard error, the
  first of which is the list of the offending values joined by newlines, so that every
  one of them occurs in it; the files are those of the state in which the adapter was
  reached, so neither the artifact nor the registry file is written; and the result does
  not depend on the adapters, chains and protocols that follow in the enumeration, none
  of which is invoked.
\<close>

theorem checksum_gate:
  assumes "runReaches E C s0 a s"
      and "fetchMetadataDetails a = (Inr (Some details), methods)"
      and "getMetadataInvalidAddresses E (metadata details) = invalidAddresses"
      and "invalidAddresses \<noteq> []"
  shows "buildMetadataAction E C s0 =
           Returned (s\<lparr>invocations := invocations s @ map (Pair (adapterName a)) methods,
                       stderr := stderr s @ checksumReport invalidAddresses\<rparr>)
         \<and> hd (checksumReport invalidAddresses) = (Yellow, join [CHR 0x0A] invalidAddresses)
         \<and> (\<forall>x\<in>set invalidAddresses. sublist x (join [CHR 0x0A] invalidAddresses))"
proof -
  have p: "processAdapter E a s =
           Returned (s\<lparr>invocations := invocations s @ map (Pair (adapterName a)) methods,
                       stderr := stderr s @ checksumReport invalidAddresses\<rparr>)"
    using assms(2,3,4) by (simp add: processAdapter_def registerMetadata_def invoked_def Let_def)
  then have "stops (processAdapter E a s)" by simp
  from run_stops[OF assms(1) this] p show ?thesis
    by (simp add: checksumReport_def join_contains)
qed

theorem checksum_gate_witness:
  "buildMetadataAction exampleEnv (exampleConfig [goodAdapter, badAdapter, laterAdapter])
     (exampleState ''registry'')
   = Returned (committedState
       \<lparr>invocations := invocations committedState @ [(''bad'', ''getProtocolTokens'')],
        stderr := stderr committedState @ checksumReport [''0xab'']\<rparr>)"
  using checksum_gate
    [OF example_reaches[of badAdapter],
     where details = "\<lparr>metadata = JString ''0xab'', fileDetails = otherKey\<rparr>"
       and methods = "[''getProtocolTokens'']" and invalidAddresses = "[''0xab'']"]
  by (simp add: fetchMetadataDetails_def catchNotImplemented_def badAdapter_def
      exampleAdapter_def example_env)

text \<open>
  C4, amended. Structural-mismatch atomicity: for every registry file in whose program
  the traversal reaches a declarator named \<open>MetadataFiles\<close> whose initializer is not a
  new-expression with an array expression as first argument, \<open>addStaticImport\<close> throws
  and leaves the state as it was, so the registry file is not mutated. The error is the
  \<open>Incorrectly typed MetadataFiles\<close> error when every import declaration has a specifier
  and every declarator named \<open>MetadataFiles\<close> that the traversal reaches either has
  such an ill-typed initializer or is a new map from an array of pairs; otherwise an
  error thrown earlier (by the import lookup or by the sort in the edit of another
  declarator) may take its place. A declarator that the traversal does not reach (one
  below a declarator whose \<open>id\<close> is a pattern) is never edited and causes no throw.
\<close>

theorem structural_mismatch_no_write:
  assumes "files s (adapterMetadataFile E) = Some contents"
      and "parse E contents = Some body"
      and "i \<in> set (metadataFilesInits body)"
      and "\<not> newMapOfArray i"
  shows "(\<exists>e. addStaticImport E d s = Thrown e s) \<and>
         (list_all hasSpecifier body
            \<and> list_all (\<lambda>j. \<not> newMapOfArray j \<or> mapOfPairs j) (metadataFilesInits body)
          \<longrightarrow> addStaticImport E d s = Thrown IncorrectlyTypedMetadataFiles s)"
proof
  from visit_throws[OF assms(3,4)] obtain e where "visit E d body = Inl e" by blast
  with assms(1,2) show "\<exists>e. addStaticImport E d s = Thrown e s"
    by (simp add: addStaticImport_def)
next
  show "list_all hasSpecifier body
            \<and> list_all (\<lambda>j. \<not> newMapOfArray j \<or> mapOfPairs j) (metadataFilesInits body)
          \<longrightarrow> addStaticImport E d s = Thrown IncorrectlyTypedMetadataFiles s"
  proof
    assume "list_all hasSpecifier body
            \<and> list_all (\<lambda>j. \<not> newMapOfArray j \<or> mapOfPairs j) (metadataFilesInits body)"
    then have "visit E d body = Inl IncorrectlyTypedMetadataFiles"
      using assms(3,4) by (intro visit_throws_incorrectlyTyped[of body i]) simp_all
    with assms(1,2) show "addStaticImport E d s = Thrown IncorrectlyTypedMetadataFiles s"
      by (simp add: addStaticImport_def)
  qed
qed

theorem structural_mismatch_no_write_witness:
  "addStaticImport exampleEnv exampleKey (exampleState ''nested'')
   = Thrown IncorrectlyTypedMetadataFiles (exampleState ''nested'')"
  using structural_mismatch_no_write
    [where s = "exampleState ''nested''" and E = exampleEnv and contents = "''nested''"
       and body = exampleNested and i = "Some (OtherExpression ''1'' [])" and d = exampleKey]
  by (simp add: exampleState_def example_env exampleNested_def exampleHelper_def
      exampleRegistered_def exampleMap_def chainsImport_def exampleImport_def exampleEntry_def
      metadataFilesInits_def programDeclarators_def isMetadataFiles_def newMapOfArray_def
      hasSpecifier_def)

text \<open>
  The claim as stated fails in three ways. With an import declaration without specifiers
  in the file, the import lookup throws its TypeError before any declarator is reached.
  With a helper function that holds a \<open>MetadataFiles\<close> initialized with
  \<open>new Map([[1]])\<close> before the ill-typed declarator, the edit of the former appends the
  new pair and sorts, and the read of the sort key of \<open>[1]\<close> throws a TypeError. With the
  ill-typed declarator below a declarator whose \<open>id\<close> is a pattern, the traversal does
  not reach it: nothing is thrown, and the file is rewritten with the import added.
\<close>

theorem structural_mismatch_no_write_counterexample:
  "addStaticImport exampleEnv exampleKey (exampleState ''bare'')
   = Thrown TypeError (exampleState ''bare'')
   \<and> addStaticImport exampleEnv exampleKey (exampleState ''sort key'')
       = Thrown TypeError (exampleState ''sort key'')
   \<and> addStaticImport exampleEnv exampleKey (exampleState ''skipped'')
       = Next ((exampleState ''skipped'')
           \<lparr>files := (files (exampleState ''skipped''))
              (adapterMetadataFile exampleEnv \<mapsto> ''skipped with import'')\<rparr>)"
proof -
  have "visit exampleEnv exampleKey (ImportDeclaration [] ''./x'' # exampleUnrelated) = Inl TypeError"
    by (simp add: edit_defs example_defs)
  moreover have "visit exampleEnv exampleKey exampleSortKey = Inl TypeError"
    by (simp add: edit_defs example_defs)
  moreover have "visit exampleEnv exampleKey exampleSkipped = Inr (exampleImport # exampleSkipped)"
    by (simp add: edit_defs example_defs)
  ultimately show ?thesis
    by (simp add: addStaticImport_def writeAndLintFile_def exampleState_def example_env)
qed

text \<open>
  C5, amended. When the run reaches an adapter whose payload is valid and whose
  registration (\<open>addStaticImport\<close>, after the artifact has been written) throws, the run
  stops with that error. The files are those of the state in which the adapter was
  reached, with one change: the artifact of the failing adapter has been written and
  stays. Nothing of the registration itself is persisted, and what earlier adapters
  committed remains.
\<close>

theorem failed_registration_leaves_artifact:
  assumes "runReaches E C s0 a s"
      and "fetchMetadataDetails a = (Inr (Some details), methods)"
      and "getMetadataInvalidAddresses E (metadata details) = []"
      and "addStaticImport E (fileDetails details)
             (writeMetadataToFile E (fileDetails details) (metadata details) (invoked a methods s))
           = Thrown e s'"
  shows "buildMetadataAction E C s0 =
           Thrown e (s\<lparr>invocations := invocations s @ map (Pair (adapterName a)) methods,
                       files := (files s)(resolve E (metadataFilePath E (fileDetails details))
                                  \<mapsto> lint E (resolve E (metadataFilePath E (fileDetails details)))
                                       (stringify E (metadata details)))\<rparr>)"
proof -
  from addStaticImport_thrown[OF assms(4)] have
    "s' = writeMetadataToFile E (fileDetails details) (metadata details) (invoked a methods s)" .
  with assms(4) have p: "processAdapter E a s =
           Thrown e (s\<lparr>invocations := invocations s @ map (Pair (adapterName a)) methods,
                       files := (files s)(resolve E (metadataFilePath E (fileDetails details))
                                  \<mapsto> lint E (resolve E (metadataFilePath E (fileDetails details)))
                                       (stringify E (metadata details)))\<rparr>)"
    using assms(2,3)
    by (simp add: processAdapter_def registerMetadata_def invoked_def writeMetadataToFile_def
        writeAndLintFile_def)
  then have "stops (processAdapter E a s)" by simp
  from run_stops[OF assms(1) this] p show ?thesis by simp
qed

theorem failed_registration_leaves_artifact_witness:
  "buildMetadataAction exampleEnv (exampleConfig [goodAdapter, laterAdapter])
     (exampleState ''unrelated'')
   = Thrown IncorrectlyTypedMetadataFiles failedState"
  using failed_registration_leaves_artifact
    [OF example_first[of goodAdapter "[laterAdapter]" "exampleState ''unrelated''"],
     where details = "\<lparr>metadata = JString ''0xAB'', fileDetails = exampleKey\<rparr>"
       and methods = "[''getProtocolTokens'']" and e = IncorrectlyTypedMetadataFiles
       and s' = failedState]
  by (simp add: adapter_defs file_defs edit_defs example_defs failedState_def)

text \<open>
  The claim as stated fails on the artifact: after the run has stopped on the registry
  file whose \<open>MetadataFiles\<close> has an unrelated initializer, the artifact of the failing
  adapter, absent before the run, is on disk.
\<close>

theorem failed_registration_counterexample:
  "files (exampleState ''unrelated'')
     ''/repo/./packages/adapters-library/src/adapters/aave-v2/products/stable-debt-token/metadata/ethereum.stable-debt-token-v2.json''
   = None
   \<and> buildMetadataAction exampleEnv (exampleConfig [goodAdapter, laterAdapter])
         (exampleState ''unrelated'')
       = Thrown IncorrectlyTypedMetadataFiles failedState
   \<and> files failedState
         ''/repo/./packages/adapters-library/src/adapters/aave-v2/products/stable-debt-token/metadata/ethereum.stable-debt-token-v2.json''
       = Some ''json''"
  by (simp add: buildMetadataAction_def exampleConfig_def filteredOut_def adapter_defs
      file_defs edit_defs example_defs failedState_def)

text \<open>
  C6, amended. Import placement: for every program body whose import declarations form
  a contiguous leading run (\<open>imports\<close>, followed by \<open>rest\<close> without imports), when every
  import declaration has at least one specifier and none has the generated identifier as
  the local name of its first specifier, the import-section edit yields the existing
  imports in their order, then the one new default import of the generated identifier
  from the relative path of the artifact, then the other statements in their order. The
  new body is again a leading run of imports followed by \<open>rest\<close>.
\<close>

theorem import_placement:
  assumes "\<forall>x\<in>set imports. isImportDeclaration x"
      and "\<forall>x\<in>set rest. \<not> isImportDeclaration x"
      and "\<forall>x\<in>set imports. hasSpecifier x \<and> \<not> bindsFirst (generatedIdentifier E d) x"
    shows "addAdapterMetadataImport E (protocolKeyOf E (protocolId d)) (protocolId d) (productId d)
             (chainKeyOf E (chainId d)) (chainId d) (fileKey d) (imports @ rest)
           = Inr (imports
                  @ [ImportDeclaration
                       [Specifier ImportDefaultSpecifier (Some (generatedIdentifier E d))]
                       (''../../'' @ artifactPath E d)]
                  @ rest)"
proof -
  have "findE (importMatches (generatedIdentifier E d)) imports = Inr None"
    using assms(3) by (intro findE_none) (simp add: importMatches_cases)
  then show ?thesis
    using partition_run[OF assms(1,2)]
    by (simp add: addAdapterMetadataImport_def buildImportAdapterMetadataEntry_def
        generatedIdentifier_def artifactPath_def)
qed

theorem import_placement_witness:
  "addAdapterMetadataImport exampleEnv ''AaveV2'' ''aave-v2'' ''stable-debt-token'' ''Ethereum'' 1
     ''stable-debt-token-v2''
     [chainsImport, OtherStatement ''export'' []]
   = Inr [chainsImport, exampleImport, OtherStatement ''export'' []]"
  using import_placement[of "[chainsImport]" "[OtherStatement ''export'' []]" exampleEnv exampleKey]
  by (simp add: isImportDeclaration_def hasSpecifier_def bindsFirst_def generatedIdentifier_def
      artifactPath_def exampleEnv_def exampleKey_def exampleImport_def exampleName_def
      chainsImport_def)

text \<open>
  The claim as stated fails where an import declaration has no specifier: the search
  throws before anything is produced.
\<close>

theorem import_placement_counterexample:
  "addAdapterMetadataImport exampleEnv ''AaveV2'' ''aave-v2'' ''stable-debt-token'' ''Ethereum'' 1
     ''stable-debt-token-v2''
     [ImportDeclaration [] ''./x'', OtherStatement ''s'' []]
   = Inl TypeError"
  by (simp add: addAdapterMetadataImport_def isImportDeclaration_def importMatches_def)

text \<open>
  C7 says that a registry file in which no \<open>MetadataFiles\<close> declaration of the expected
  shape can be located, also one without any declarator of that name, makes the
  registry-entry edit fatal. The code does not do that for the file without such a
  declarator: the traversal meets none, \<open>addAdapterMetadataEntry\<close> is never called, and
  the file is rewritten with only the import added (for every such program, see
  \<open>visit_without_MetadataFiles\<close>). Here the registry program is the single import of
  \<open>Chain\<close>.
\<close>

theorem missing_MetadataFiles_not_fatal:
  "visit exampleEnv exampleKey [chainsImport] = Inr [chainsImport, exampleImport]
   \<and> addStaticImport exampleEnv exampleKey (exampleState ''no map'')
       = Next ((exampleState ''no map'')
           \<lparr>files := (files (exampleState ''no map''))
              (adapterMetadataFile exampleEnv \<mapsto> ''import only'')\<rparr>)"
proof -
  have v: "visit exampleEnv exampleKey [chainsImport] = Inr [chainsImport, exampleImport]"
    by (simp add: edit_defs example_defs)
  then show ?thesis
    by (simp add: addStaticImport_def writeAndLintFile_def exampleState_def example_env)
qed



text \<open>
  C9. NotImplemented recovery and partial-failure isolation. If the capability of an
  adapter that is invoked last rejects with a \<open>NotImplementedError\<close>, and none invoked
  before it rejects with another error, the adapter registers nothing: the loop goes on
  with the next adapter from the same state, only the invocations recorded. If a
  capability rejects with any other error, the first such error stops the run: the
  action throws it with the files of the state in which the adapter was reached (what
  earlier adapters committed remains), whatever follows in the enumeration, and no
  capability after it is invoked.
\<close>

theorem not_implemented_skipped_other_errors_fatal:
  "(capabilities a = before @ [(m, Rejected NotImplementedError)]
      \<and> (\<forall>c\<in>set before. recovers (snd c))
    \<longrightarrow> adaptersLoop E (a # rest) s
          = adaptersLoop E rest
              (s\<lparr>invocations := invocations s
                   @ map (Pair (adapterName a)) (map fst (capabilities a))\<rparr>))
   \<and> (capabilities a = before @ (m, Rejected e) # after \<and> e \<noteq> NotImplementedError
        \<and> (\<forall>c\<in>set before. recovers (snd c)) \<and> runReaches E C s0 a s
      \<longrightarrow> buildMetadataAction E C s0
            = Thrown e
                (s\<lparr>invocations := invocations s
                     @ map (Pair (adapterName a)) (map fst before @ [m])\<rparr>))"
proof (intro conjI impI)
  assume "capabilities a = before @ [(m, Rejected NotImplementedError)]
      \<and> (\<forall>c\<in>set before. recovers (snd c))"
  then have "fetchMetadataDetails a = (Inr None, map fst (capabilities a))"
    by (intro fetch_notImplemented[of a before m]) simp_all
  then have "processAdapter E a s
             = Next (s\<lparr>invocations := invocations s
                        @ map (Pair (adapterName a)) (map fst (capabilities a))\<rparr>)"
    by (simp add: processAdapter_def registerMetadata_def invoked_def)
  then show "adaptersLoop E (a # rest) s
          = adaptersLoop E rest
              (s\<lparr>invocations := invocations s
                   @ map (Pair (adapterName a)) (map fst (capabilities a))\<rparr>)"
    by simp
next
  assume h: "capabilities a = before @ (m, Rejected e) # after \<and> e \<noteq> NotImplementedError
        \<and> (\<forall>c\<in>set before. recovers (snd c)) \<and> runReaches E C s0 a s"
  then have "fetchMetadataDetails a = (Inl e, map fst before @ [m])"
    by (intro fetch_fatal[of a before m e after]) simp_all
  then have p: "processAdapter E a s
                = Thrown e (s\<lparr>invocations := invocations s
                              @ map (Pair (adapterName a)) (map fst before @ [m])\<rparr>)"
    by (simp add: processAdapter_def invoked_def)
  then have "stops (processAdapter E a s)" by simp
  with h have "buildMetadataAction E C s0 = processAdapter E a s"
    by (intro run_stops) simp_all
  with p show "buildMetadataAction E C s0
            = Thrown e
                (s\<lparr>invocations := invocations s
                     @ map (Pair (adapterName a)) (map fst before @ [m])\<rparr>)"
    by simp
qed

theorem not_implemented_skipped_other_errors_fatal_witness:
  "adaptersLoop exampleEnv [skippedAdapter, laterAdapter] committedState
   = adaptersLoop exampleEnv [laterAdapter]
       (committedState\<lparr>invocations := invocations committedState
                         @ [(''skipped'', ''getProtocolTokens'')]\<rparr>)
   \<and> buildMetadataAction exampleEnv (exampleConfig [goodAdapter, failingAdapter, laterAdapter])
         (exampleState ''registry'')
       = Thrown (OtherError ''rpc'')
           (committedState\<lparr>invocations := invocations committedState
                             @ [(''failing'', ''getProtocolTokens'')]\<rparr>)"
  using not_implemented_skipped_other_errors_fatal
      [where a = skippedAdapter and before = "[]" and m = "''getProtocolTokens''"
         and E = exampleEnv and rest = "[laterAdapter]" and s = committedState
         and after = "[]" and e = "OtherError ''rpc''"]
    not_implemented_skipped_other_errors_fatal
      [where a = failingAdapter and before = "[]" and m = "''getProtocolTokens''"
         and E = exampleEnv and s = committedState and after = "[]" and e = "OtherError ''rpc''"
         and C = "exampleConfig [goodAdapter, failingAdapter, laterAdapter]"
         and ?s0.0 = "exampleState ''registry''"]
    example_reaches[of failingAdapter]
  by (simp add: capabilities_def skippedAdapter_def failingAdapter_def exampleAdapter_def)

text \<open>
  C10, amended. The import lookup is partial: when the import declarations of the
  body include one without specifiers, and no import declaration before it has the
  generated identifier as the local name of its first specifier, the search predicate
  throws a TypeError; the transform throws it, and \<open>addStaticImport\<close> throws it with the
  state unchanged, before any edit is kept or written. The lookup throws in no other
  case, and the only error it throws is the TypeError; in particular it is total when
  every import declaration has at least one specifier.
\<close>

theorem import_lookup_partial:
  "(filter isImportDeclaration body = pre @ ImportDeclaration [] source # post
      \<and> (\<forall>x\<in>set pre. \<not> bindsFirst (generatedIdentifier E d) x)
    \<longrightarrow> visit E d body = Inl TypeError
        \<and> (files s (adapterMetadataFile E) = Some contents \<and> parse E contents = Some body
           \<longrightarrow> addStaticImport E d s = Thrown TypeError s))
   \<and> (list_all hasSpecifier body
      \<longrightarrow> (\<exists>body'. addAdapterMetadataImport E (protocolKeyOf E (protocolId d)) (protocolId d)
                      (productId d) (chainKeyOf E (chainId d)) (chainId d) (fileKey d) body
                    = Inr body'))
   \<and> (addAdapterMetadataImport E (protocolKeyOf E (protocolId d)) (protocolId d)
          (productId d) (chainKeyOf E (chainId d)) (chainId d) (fileKey d) body = Inl e
      \<longrightarrow> e = TypeError
          \<and> (\<exists>pre source post.
                filter isImportDeclaration body = pre @ ImportDeclaration [] source # post
                \<and> (\<forall>x\<in>set pre. \<not> bindsFirst (generatedIdentifier E d) x)))"
proof (intro conjI impI)
  let ?p = "importMatches (generatedIdentifier E d)"
  let ?add = "addAdapterMetadataImport E (protocolKeyOf E (protocolId d)) (protocolId d)
                (productId d) (chainKeyOf E (chainId d)) (chainId d) (fileKey d) body"
  have add: "\<And>e. ?add = Inl e \<longleftrightarrow> findE ?p (filter isImportDeclaration body) = Inl e"
    unfolding generatedIdentifier_def by (rule addAdapterMetadataImport_error)
  {
    assume h: "filter isImportDeclaration body = pre @ ImportDeclaration [] source # post
      \<and> (\<forall>x\<in>set pre. \<not> bindsFirst (generatedIdentifier E d) x)"
    have "\<forall>y\<in>set pre. ?p y \<noteq> Inr True"
      using h by (simp add: importMatches_cases)
    moreover have "?p (ImportDeclaration [] source) = Inl TypeError"
      by (simp add: importMatches_def)
    ultimately have "\<exists>e'. findE ?p (pre @ ImportDeclaration [] source # post) = Inl e'"
      by (rule findE_throws)
    then obtain e' where
      e': "findE ?p (pre @ ImportDeclaration [] source # post) = Inl e'" ..
    then have "e' = TypeError" by (rule import_lookup_error)
    with e' h have "?add = Inl TypeError"
      by (simp add: add)
    then show v: "visit E d body = Inl TypeError"
      by (simp add: visit_def)
    {
      assume "files s (adapterMetadataFile E) = Some contents \<and> parse E contents = Some body"
      with v show "addStaticImport E d s = Thrown TypeError s"
        by (simp add: addStaticImport_def)
    }
  }
  {
    assume "list_all hasSpecifier body"
    from import_total[OF this] show "\<exists>body'. ?add = Inr body'" by blast
  }
  {
    assume a: "?add = Inl e"
    then have f: "findE ?p (filter isImportDeclaration body) = Inl e"
      by (simp add: add)
    then show "e = TypeError" by (rule import_lookup_error)
    from findE_error_split[OF f] obtain pre x post where
      s: "filter isImportDeclaration body = pre @ x # post"
         "\<forall>y\<in>set pre. ?p y = Inr False" "?p x = Inl e"
      by blast
    have "x \<in> set (filter isImportDeclaration body)" unfolding s(1) by simp
    then have "isImportDeclaration x" by simp
    moreover have "\<not> hasSpecifier x"
      using s(3) by (simp add: importMatches_cases split: if_splits)
    ultimately obtain source where "x = ImportDeclaration [] source"
      by (cases x) (auto simp: isImportDeclaration_def hasSpecifier_def split: list.splits)
    moreover have "\<forall>y\<in>set pre. \<not> bindsFirst (generatedIdentifier E d) y"
      using s(2) by (auto simp: importMatches_cases split: if_splits)
    ultimately show "\<exists>pre source post.
                filter isImportDeclaration body = pre @ ImportDeclaration [] source # post
                \<and> (\<forall>x\<in>set pre. \<not> bindsFirst (generatedIdentifier E d) x)"
      using s(1) by blast
  }
qed

theorem import_lookup_partial_witness:
  "visit exampleEnv exampleKey (ImportDeclaration [] ''./x'' # exampleUnrelated) = Inl TypeError
   \<and> addStaticImport exampleEnv exampleKey (exampleState ''bare'')
       = Thrown TypeError (exampleState ''bare'')
   \<and> (\<exists>body'. addAdapterMetadataImport exampleEnv ''AaveV2'' ''aave-v2'' ''stable-debt-token''
                   ''Ethereum'' 1 ''stable-debt-token-v2'' exampleRegistry = Inr body')"
  using import_lookup_partial
      [where body = "ImportDeclaration [] ''./x'' # exampleUnrelated" and pre = "[]"
         and source = "''./x''" and post = "[]" and E = exampleEnv and d = exampleKey
         and s = "exampleState ''bare''" and contents = "''bare''"]
    import_lookup_partial[where body = exampleRegistry and E = exampleEnv and d = exampleKey]
  by (simp add: isImportDeclaration_def hasSpecifier_def exampleUnrelated_def exampleState_def
      example_env exampleRegistry_def chainsImport_def exampleMap_def)
     (simp add: exampleEnv_def exampleKey_def)

text \<open>
  The claim as stated fails where the import of the identifier comes before the import
  declaration without specifiers: the search stops at the match, nothing is thrown, and
  the transform completes.
\<close>

theorem import_lookup_partial_counterexample:
  "visit exampleEnv exampleKey
     [exampleImport, ImportDeclaration [] ''./x'', exampleMap [exampleEntry]]
   = Inr [exampleImport, ImportDeclaration [] ''./x'', exampleMap [exampleEntry]]"
  by (simp add: edit_defs example_defs)

end
